theory Spec2Isabelle
  imports Main "HOL-Library.AList"
begin

section \<open>The GNOME extensions updater (update-extensions.py)\<close>

text \<open>
  A shallow embedding of \<^verbatim>\<open>pkgs/desktops/gnome/extensions/update-extensions.py\<close>.
  Python \<^verbatim>\<open>str\<close> is modelled as \<^typ>\<open>string\<close>: one \<^typ>\<open>char\<close> stands for one code
  point below 256. A Python \<^verbatim>\<open>dict\<close> is an association list in insertion order, read with
  \<^const>\<open>map_of\<close> and written with \<^const>\<open>AList.update\<close> (a new key goes to the end, an old
  key keeps its place). Exceptions are values of \<open>py_error\<close>; the outside world (the HTTP
  server, the \<^verbatim>\<open>nix-prefetch-url\<close> process, the Nix store) is an explicit oracle.
\<close>

subsection \<open>Python built-ins used by the script\<close>

datatype py_error =
    RetriesExhausted
  | UnboundLocalError
  | IndexError
  | KeyError
  | FileNotFoundError
  | UnicodeEncodeError
  | RuntimeError
  | HTTPError nat

text \<open>\<^verbatim>\<open>s.startswith(p)\<close>\<close>

definition startswith :: "string \<Rightarrow> string \<Rightarrow> bool" where
  "startswith s p = (take (length p) s = p)"

text \<open>\<^verbatim>\<open>str(n)\<close> for an integer \<open>n\<close>.\<close>

definition digit_char :: "nat \<Rightarrow> char" where
  "digit_char d = ''0123456789'' ! d"

fun str_nat :: "nat \<Rightarrow> string" where
  "str_nat n = (if n < 10 then [digit_char n] else str_nat (n div 10) @ [digit_char (n mod 10)])"

declare str_nat.simps [simp del]

definition str_int :: "int \<Rightarrow> string" where
  "str_int i = (if i < 0 then CHR ''-'' # str_nat (nat (- i)) else str_nat (nat i))"

text \<open>\<^verbatim>\<open>max(xs, default=None)\<close>\<close>

fun py_max :: "int list \<Rightarrow> int option" where
  "py_max [] = None"
| "py_max (x # xs) = Some (fold max xs x)"

text \<open>\<^verbatim>\<open>s.replace(old, new)\<close>: every occurrence, left to right, without overlap.\<close>

fun replace_ne :: "string \<Rightarrow> string \<Rightarrow> string \<Rightarrow> string" where
  "replace_ne old new [] = []"
| "replace_ne old new (c # cs) =
     (if startswith (c # cs) old then new @ replace_ne old new (drop (length old - 1) cs)
      else c # replace_ne old new cs)"

definition replace :: "string \<Rightarrow> string \<Rightarrow> string \<Rightarrow> string" where
  "replace s old new =
     (if old = [] then new @ concat (map (\<lambda>c. c # new) s) else replace_ne old new s)"

text \<open>\<^verbatim>\<open>s.split(sep)\<close> for a one-character separator.\<close>

fun split_on :: "char \<Rightarrow> string \<Rightarrow> string list" where
  "split_on sep [] = [[]]"
| "split_on sep (c # cs) =
     (if c = sep then [] # split_on sep cs
      else (case split_on sep cs of [] \<Rightarrow> [[c]] | x # xs \<Rightarrow> (c # x) # xs))"

subsection \<open>Configuration and data\<close>

definition supported_versions :: "(string \<times> string) list" where
  "supported_versions =
     [(''38'', ''3.38''), (''40'', ''40''), (''41'', ''41''), (''42'', ''42''), (''43'', ''43''),
      (''44'', ''44''), (''45'', ''45''), (''46'', ''46''), (''47'', ''47'')]"

subsection \<open>Version selection: the first loop of \<^verbatim>\<open>generate_extension_versions\<close>\<close>

text \<open>
  The generator expression under \<^verbatim>\<open>max\<close>: the versions of the entries whose shell version
  starts with the prefix (\<^verbatim>\<open>int(ext_ver)\<close> is the identity on an \<^verbatim>\<open>int\<close>).
\<close>

definition compatible_versions :: "(string \<times> int) list \<Rightarrow> string \<Rightarrow> int list" where
  "compatible_versions extension_version_map version_prefix =
     map snd (filter (\<lambda>(shell_ver, ext_ver). startswith shell_ver version_prefix)
                extension_version_map)"

text \<open>
  One iteration per entry of \<^verbatim>\<open>supported_versions\<close>. \<^verbatim>\<open>if not extension_version: continue\<close>
  skips the group when the maximum is \<^verbatim>\<open>None\<close> and also when it is \<open>0\<close>, both being
  false in Python.
\<close>

fun extension_versions_loop ::
  "(string \<times> string) list \<Rightarrow> (string \<times> int) list \<Rightarrow> (string \<times> int) list \<Rightarrow> (string \<times> int) list"
where
  "extension_versions_loop [] extension_version_map extension_versions = extension_versions"
| "extension_versions_loop ((shell_version, version_prefix) # rest) extension_version_map
       extension_versions =
     (case py_max (compatible_versions extension_version_map version_prefix) of
        None \<Rightarrow> extension_versions_loop rest extension_version_map extension_versions
      | Some extension_version \<Rightarrow>
          if extension_version = 0
          then extension_versions_loop rest extension_version_map extension_versions
          else extension_versions_loop rest extension_version_map
                 (AList.update shell_version extension_version extension_versions))"

definition extension_versions :: "(string \<times> int) list \<Rightarrow> (string \<times> int) list" where
  "extension_versions extension_version_map =
     extension_versions_loop supported_versions extension_version_map []"

subsection \<open>More built-ins: lines, whitespace, ASCII, base64\<close>

text \<open>
  \<^verbatim>\<open>s.splitlines()\<close>: the line boundaries of a \<^verbatim>\<open>str\<close> below code point 256; a
  carriage return followed by a line feed is one boundary, and a final boundary opens no
  further line.
\<close>

definition is_linebreak :: "char \<Rightarrow> bool" where
  "is_linebreak c =
     (c \<in> set [CHR 0x0A, CHR 0x0B, CHR 0x0C, CHR 0x0D, CHR 0x1C, CHR 0x1D, CHR 0x1E, CHR 0x85])"

fun splitlines_from :: "string \<Rightarrow> string \<Rightarrow> string list" where
  "splitlines_from cur [] = (if cur = [] then [] else [cur])"
| "splitlines_from cur [c] = (if is_linebreak c then [cur] else [cur @ [c]])"
| "splitlines_from cur (c # d # cs) =
     (if c = CHR 0x0D \<and> d = CHR 0x0A then cur # splitlines_from [] cs
      else if is_linebreak c then cur # splitlines_from [] (d # cs)
      else splitlines_from (cur @ [c]) (d # cs))"

definition splitlines :: "string \<Rightarrow> string list" where
  "splitlines s = splitlines_from [] s"

text \<open>\<^verbatim>\<open>s.strip()\<close>: the characters below code point 256 for which \<^verbatim>\<open>str.isspace\<close> holds.\<close>

definition isspace :: "char \<Rightarrow> bool" where
  "isspace c =
     (c \<in> set [CHR 0x09, CHR 0x0A, CHR 0x0B, CHR 0x0C, CHR 0x0D, CHR 0x1C, CHR 0x1D, CHR 0x1E,
               CHR 0x1F, CHR 0x20, CHR 0x85, CHR 0xA0])"

definition strip :: "string \<Rightarrow> string" where
  "strip s = rev (dropWhile isspace (rev (dropWhile isspace s)))"

text \<open>\<^verbatim>\<open>s.encode("ascii")\<close>: the bytes of \<open>s\<close>, or UnicodeEncodeError at a code point above 127.\<close>

definition encode_ascii :: "string \<Rightarrow> py_error + nat list" where
  "encode_ascii s =
     (if list_all (\<lambda>c. of_char c < (128::nat)) s then Inr (map of_char s)
      else Inl UnicodeEncodeError)"

text \<open>\<^verbatim>\<open>base64.b64encode(bs).decode()\<close>\<close>

definition b64_char :: "nat \<Rightarrow> char" where
  "b64_char n = ''ABCDEFGHIJKLMNOPQRSTUVWXYZabcdefghijklmnopqrstuvwxyz0123456789+/'' ! n"

fun b64encode :: "nat list \<Rightarrow> string" where
  "b64encode [] = []"
| "b64encode [a] = [b64_char (a div 4), b64_char ((a mod 4) * 16), CHR ''='', CHR ''='']"
| "b64encode [a, b] =
     [b64_char (a div 4), b64_char ((a mod 4) * 16 + b div 16), b64_char ((b mod 16) * 4),
      CHR ''='']"
| "b64encode (a # b # c # rest) =
     [b64_char (a div 4), b64_char ((a mod 4) * 16 + b div 16),
      b64_char ((b mod 16) * 4 + c div 64), b64_char (c mod 64)] @ b64encode rest"

subsection \<open>The outside world and the state of a run\<close>

text \<open>The \<^verbatim>\<open>CompletedProcess\<close> of \<^verbatim>\<open>subprocess.run\<close>.\<close>

record completed_process =
  returncode :: int
  stdout :: string
  stderr :: string

text \<open>One record of the catalog's answer, with the keys the script reads.\<close>

record raw_extension =
  raw_pk :: int
  raw_uuid :: string
  raw_name :: string
  raw_description :: string
  raw_link :: string
  raw_shell_version_map :: "(string \<times> int) list"

text \<open>
  \<^verbatim>\<open>urllib.request.urlopen\<close> either gives a response, taken here as the already decoded
  \<^verbatim>\<open>"extensions"\<close> array of its body, or raises \<^verbatim>\<open>HTTPError\<close> with a status code.
\<close>

datatype http_result = Response "raw_extension list" | HTTPFailure nat

text \<open>
  The oracle. \<open>nix_prefetch_url n url\<close> is what the \<open>n\<close>-th call of the run (counted from
  0) to \<^verbatim>\<open>nix-prefetch-url --unpack --print-path url\<close> yields, so that the tool may answer
  the same URL differently each time. \<open>metadata_json path\<close> is the text of
  \<^verbatim>\<open>path / "metadata.json"\<close>, or \<open>None\<close> when the file cannot be opened.
  \<open>urlopen page attempt\<close> is the answer to the given attempt at the query page; the
  script asks for every page once, so page and attempt name one call.
\<close>

record world =
  nix_prefetch_url :: "nat \<Rightarrow> string \<Rightarrow> completed_process"
  metadata_json :: "string \<Rightarrow> string option"
  urlopen :: "nat \<Rightarrow> nat \<Rightarrow> http_result"

text \<open>
  The mutable global \<^verbatim>\<open>package_name_registry\<close>, with three logs that record the effects of
  a run, each in order: the URLs handed to \<^verbatim>\<open>nix-prefetch-url\<close>, the arguments of every call
  of \<^verbatim>\<open>fetch_extension_data\<close>, and the collision warnings of \<^verbatim>\<open>process_extension\<close>, each
  kept as the package name and the shell version that its message names.
\<close>

type_synonym registry = "(string \<times> (string \<times> string list) list) list"

record run_state =
  package_name_registry :: registry
  prefetch_log :: "string list"
  fetch_log :: "(string \<times> string) list"
  warning_log :: "(string \<times> string) list"

text \<open>The loop at module level that fills the registry with an empty dict per shell version.\<close>

definition initial_registry :: registry where
  "initial_registry = fold (\<lambda>shell_version reg. AList.update shell_version [] reg)
                        (map fst supported_versions) []"

definition initial_state :: run_state where
  "initial_state =
     \<lparr>package_name_registry = initial_registry, prefetch_log = [], fetch_log = [],
      warning_log = []\<rparr>"

subsection \<open>\<^verbatim>\<open>fetch_extension_data\<close>\<close>

definition extension_url :: "string \<Rightarrow> string \<Rightarrow> string" where
  "extension_url uuid version =
     ''https://extensions.gnome.org/extension-data/'' @ replace uuid ''@'' [] @ ''.v'' @ version
       @ ''.shell-extension.zip''"

text \<open>
  \<^verbatim>\<open>for _ in range(0, 10)\<close>, as a loop over the iterations that are left. \<open>process\<close> is
  the variable of that name: unbound before the first iteration, then the last result.
\<close>

primrec prefetch_loop ::
  "world \<Rightarrow> string \<Rightarrow> nat \<Rightarrow> completed_process option \<Rightarrow> string list
     \<Rightarrow> completed_process option \<times> string list"
where
  "prefetch_loop w url 0 process log = (process, log)"
| "prefetch_loop w url (Suc n) process log =
     (let p = nix_prefetch_url w (length log) url; log' = log @ [url]
      in if returncode p = 0 then (Some p, log') else prefetch_loop w url n (Some p) log')"

text \<open>The part after a successful download: hash, store path, metadata.\<close>

definition read_result :: "world \<Rightarrow> completed_process \<Rightarrow> py_error + string \<times> string" where
  "read_result w process =
     (let lines = splitlines (stdout process)
      in if length lines < 1 then Inl IndexError
         else let hash = strip (lines ! 0)
              in if length lines < 2 then Inl IndexError
                 else let path = strip (lines ! 1)
                      in (case metadata_json w path of
                            None \<Rightarrow> Inl FileNotFoundError
                          | Some text \<Rightarrow>
                              (case encode_ascii text of
                                 Inl e \<Rightarrow> Inl e
                               | Inr bytes \<Rightarrow> Inr (hash, b64encode bytes))))"

definition fetch_extension_data ::
  "world \<Rightarrow> run_state \<Rightarrow> string \<Rightarrow> string \<Rightarrow> (py_error + string \<times> string) \<times> run_state"
where
  "fetch_extension_data w st uuid version =
     (let url = extension_url uuid version;
          (process, log') = prefetch_loop w url 10 None (prefetch_log st);
          st' = st\<lparr>prefetch_log := log', fetch_log := fetch_log st @ [(uuid, version)]\<rparr>
      in (case process of
            None \<Rightarrow> (Inl UnboundLocalError, st')
          | Some p \<Rightarrow>
              if returncode p \<noteq> 0 then (Inl RetriesExhausted, st')
              else (read_result w p, st')))"

subsection \<open>\<^verbatim>\<open>generate_extension_versions\<close>\<close>

record selected_version =
  sel_version :: string
  sel_sha256 :: string
  sel_metadata :: string

text \<open>The second loop: one download per chosen extension version, in ascending order.\<close>

fun download_loop ::
  "world \<Rightarrow> string \<Rightarrow> int list \<Rightarrow> (int \<times> string \<times> string) list \<Rightarrow> run_state
     \<Rightarrow> (py_error + (int \<times> string \<times> string) list) \<times> run_state"
where
  "download_loop w uuid [] extension_info_cache st = (Inr extension_info_cache, st)"
| "download_loop w uuid (extension_version # rest) extension_info_cache st =
     (case fetch_extension_data w st uuid (str_int extension_version) of
        (Inl e, st') \<Rightarrow> (Inl e, st')
      | (Inr info, st') \<Rightarrow>
          download_loop w uuid rest (AList.update extension_version info extension_info_cache) st')"

text \<open>The third loop: the full record of every chosen group, read from the cache.\<close>

fun fill_loop ::
  "(string \<times> int) list \<Rightarrow> (int \<times> string \<times> string) list \<Rightarrow> (string \<times> selected_version) list
     \<Rightarrow> py_error + (string \<times> selected_version) list"
where
  "fill_loop [] extension_info_cache extension_versions_full = Inr extension_versions_full"
| "fill_loop ((shell_version, extension_version) # rest) extension_info_cache
       extension_versions_full =
     (case map_of extension_info_cache extension_version of
        None \<Rightarrow> Inl KeyError
      | Some (sha, meta) \<Rightarrow>
          fill_loop rest extension_info_cache
            (AList.update shell_version
               \<lparr>sel_version = str_int extension_version, sel_sha256 = sha, sel_metadata = meta\<rparr>
               extension_versions_full))"

definition generate_extension_versions ::
  "world \<Rightarrow> run_state \<Rightarrow> (string \<times> int) list \<Rightarrow> string
     \<Rightarrow> (py_error + (string \<times> selected_version) list) \<times> run_state"
where
  "generate_extension_versions w st extension_version_map uuid =
     (let chosen = extension_versions extension_version_map
      in (case download_loop w uuid (sort (remdups (map snd chosen))) [] st of
            (Inl e, st') \<Rightarrow> (Inl e, st')
          | (Inr extension_info_cache, st') \<Rightarrow> (fill_loop chosen extension_info_cache [], st')))"

subsection \<open>\<^verbatim>\<open>pname_from_url\<close> and \<^verbatim>\<open>process_extension\<close>\<close>

definition pname_from_url :: "string \<Rightarrow> py_error + string \<times> string" where
  "pname_from_url url =
     (let parts = split_on CHR ''/'' url
      in if length parts < 4 then Inl IndexError else Inr (parts ! 3, parts ! 2))"

record extension =
  ext_uuid :: string
  ext_name :: string
  ext_pname :: string
  ext_description :: string
  ext_link :: string
  ext_shell_version_map :: "(string \<times> selected_version) list"

text \<open>
  The loop over \<^verbatim>\<open>shell_version_map.keys()\<close> that records the package name. It reads
  the registry: when the name is already listed for the shell version, the warning is
  logged and the identifier appended; otherwise the entry is created. An absent shell
  version in the registry would be a KeyError.
\<close>

fun register_loop ::
  "string list \<Rightarrow> string \<Rightarrow> string \<Rightarrow> registry \<Rightarrow> (string \<times> string) list
     \<Rightarrow> py_error option \<times> registry \<times> (string \<times> string) list"
where
  "register_loop [] pname uuid reg warnings = (None, reg, warnings)"
| "register_loop (shell_version # rest) pname uuid reg warnings =
     (case map_of reg shell_version of
        None \<Rightarrow> (Some KeyError, reg, warnings)
      | Some names \<Rightarrow>
          (case map_of names pname of
             Some uuids \<Rightarrow>
               register_loop rest pname uuid
                 (AList.update shell_version (AList.update pname (uuids @ [uuid]) names) reg)
                 (warnings @ [(pname, shell_version)])
           | None \<Rightarrow>
               register_loop rest pname uuid
                 (AList.update shell_version (AList.update pname [uuid] names) reg)
                 warnings))"

text \<open>
  Reading the registry: \<^verbatim>\<open>package_name_registry[shell_version][pname]\<close>, with \<open>None\<close>
  when either key is absent.
\<close>

definition registry_entry :: "registry \<Rightarrow> string \<Rightarrow> string \<Rightarrow> string list option" where
  "registry_entry reg shell_version pname =
     (case map_of reg shell_version of None \<Rightarrow> None | Some names \<Rightarrow> map_of names pname)"

definition process_extension ::
  "world \<Rightarrow> run_state \<Rightarrow> raw_extension \<Rightarrow> (py_error + extension option) \<times> run_state"
where
  "process_extension w st extension =
     (if raw_shell_version_map extension = [] then (Inr None, st)
      else (case generate_extension_versions w st (raw_shell_version_map extension) (raw_uuid extension) of
              (Inl e, st') \<Rightarrow> (Inl e, st')
            | (Inr svm, st') \<Rightarrow>
                if svm = [] then (Inr None, st')
                else (case pname_from_url (raw_link extension) of
                        Inl e \<Rightarrow> (Inl e, st')
                      | Inr (pname, pname_id) \<Rightarrow>
                          (case register_loop (map fst svm) pname (raw_uuid extension)
                                  (package_name_registry st') (warning_log st') of
                             (Some e, reg, warnings) \<Rightarrow>
                               (Inl e, st'\<lparr>package_name_registry := reg,
                                          warning_log := warnings\<rparr>)
                           | (None, reg, warnings) \<Rightarrow>
                               (Inr (Some \<lparr>ext_uuid = raw_uuid extension, ext_name = raw_name extension,
                                           ext_pname = pname,
                                           ext_description = raw_description extension,
                                           ext_link = ''https://extensions.gnome.org''
                                                        @ raw_link extension,
                                           ext_shell_version_map = svm\<rparr>),
                                st'\<lparr>package_name_registry := reg,
                                   warning_log := warnings\<rparr>)))))"

subsection \<open>\<^verbatim>\<open>request\<close> and \<^verbatim>\<open>scrape_extensions_index\<close>\<close>

text \<open>
  The generator behind \<^verbatim>\<open>with request(url) as response\<close>:
  \<^verbatim>\<open>for attempt in range(retries + 1)\<close>, with \<open>open_url attempt\<close> the answer to that
  attempt. A response is yielded to the body of the \<^verbatim>\<open>with\<close> statement and the loop is
  left; an \<^verbatim>\<open>HTTPError\<close> is swallowed when its code is in \<open>retry_codes\<close> and attempts are
  left, and raised otherwise. A generator that ends without a yield is a RuntimeError of
  \<^verbatim>\<open>contextlib\<close>. The second component counts the calls of \<^verbatim>\<open>urlopen\<close>.
\<close>

fun request_loop ::
  "(nat \<Rightarrow> http_result) \<Rightarrow> nat \<Rightarrow> nat list \<Rightarrow> nat list \<Rightarrow> nat
     \<Rightarrow> (py_error + raw_extension list) \<times> nat"
where
  "request_loop open_url retries retry_codes [] calls = (Inl RuntimeError, calls)"
| "request_loop open_url retries retry_codes (attempt # rest) calls =
     (case open_url attempt of
        Response response \<Rightarrow> (Inr response, calls + 1)
      | HTTPFailure code \<Rightarrow>
          if code \<in> set retry_codes \<and> attempt < retries
          then request_loop open_url retries retry_codes rest (calls + 1)
          else (Inl (HTTPError code), calls + 1))"

definition request ::
  "(nat \<Rightarrow> http_result) \<Rightarrow> nat \<Rightarrow> nat list \<Rightarrow> (py_error + raw_extension list) \<times> nat"
where
  "request open_url retries retry_codes =
     request_loop open_url retries retry_codes [0..<retries + 1] 0"

text \<open>The default arguments of \<^verbatim>\<open>request\<close>.\<close>

definition default_retries :: nat where
  "default_retries = 5"

definition default_retry_codes :: "nat list" where
  "default_retry_codes = [500, 502, 503, 504]"

text \<open>
  What the \<^verbatim>\<open>with request(...)\<close> block of \<^verbatim>\<open>scrape_extensions_index\<close> gets for a
  page: the decoded items, or the exception that \<^verbatim>\<open>request\<close> lets through.
\<close>

definition page_result :: "world \<Rightarrow> nat \<Rightarrow> py_error + raw_extension list" where
  "page_result w page = fst (request (urlopen w page) default_retries default_retry_codes)"

text \<open>
  The \<^verbatim>\<open>while True\<close> loop of \<^verbatim>\<open>scrape_extensions_index\<close>. It ends only by
  \<^verbatim>\<open>break\<close> or by an exception, so it is a partial function: \<open>None\<close> stands for a run
  that never leaves the loop.
\<close>

partial_function (option) scrape_loop ::
  "world \<Rightarrow> nat \<Rightarrow> raw_extension list \<Rightarrow> (py_error + raw_extension list) option"
where
  "scrape_loop w page extensions =
     (case page_result w (page + 1) of
        Inr data \<Rightarrow>
          if length data < 25 then Some (Inr (extensions @ data))
          else scrape_loop w (page + 1) (extensions @ data)
      | Inl (HTTPError code) \<Rightarrow>
          if code = 404 then Some (Inr extensions) else Some (Inl (HTTPError code))
      | Inl e \<Rightarrow> Some (Inl e))"

text \<open>
  Two readings of a page used to state the properties: its items (none when the request
  fails), and whether it is a full page, after which the loop goes on.
\<close>

definition page_items :: "world \<Rightarrow> nat \<Rightarrow> raw_extension list" where
  "page_items w page = (case page_result w page of Inr data \<Rightarrow> data | Inl e \<Rightarrow> [])"

definition full_page :: "world \<Rightarrow> nat \<Rightarrow> bool" where
  "full_page w page =
     (case page_result w page of Inr data \<Rightarrow> \<not> length data < 25 | Inl e \<Rightarrow> False)"

text \<open>\<^verbatim>\<open>extensions.sort(key=itemgetter("pk"))\<close> is a stable ascending sort.\<close>

definition scrape_extensions_index :: "world \<Rightarrow> (py_error + raw_extension list) option" where
  "scrape_extensions_index w =
     (case scrape_loop w 0 [] of
        None \<Rightarrow> None
      | Some (Inl e) \<Rightarrow> Some (Inl e)
      | Some (Inr extensions) \<Rightarrow> Some (Inr (sort_key raw_pk extensions)))"

subsection \<open>The main block: processing\<close>

fun process_all ::
  "world \<Rightarrow> raw_extension list \<Rightarrow> extension list \<Rightarrow> run_state
     \<Rightarrow> (py_error + extension list) \<times> run_state"
where
  "process_all w [] processed_extensions st = (Inr processed_extensions, st)"
| "process_all w (raw_extension # rest) processed_extensions st =
     (case process_extension w st raw_extension of
        (Inl e, st') \<Rightarrow> (Inl e, st')
      | (Inr None, st') \<Rightarrow> process_all w rest processed_extensions st'
      | (Inr (Some processed_extension), st') \<Rightarrow>
          process_all w rest (processed_extensions @ [processed_extension]) st')"

subsection \<open>The main block: writing \<^verbatim>\<open>extensions.json\<close>\<close>

text \<open>
  \<^verbatim>\<open>json.dumps(s, ensure_ascii=False)\<close> of a string: quotation mark, backslash and the
  control characters below 0x20 are escaped, everything else is copied.
\<close>

definition hex_digit :: "nat \<Rightarrow> char" where
  "hex_digit n = ''0123456789abcdef'' ! n"

definition json_escape_char :: "char \<Rightarrow> string" where
  "json_escape_char c =
     (if c = CHR 0x22 then [CHR 0x5C, CHR 0x22]
      else if c = CHR 0x5C then [CHR 0x5C, CHR 0x5C]
      else if c = CHR 0x0A then [CHR 0x5C, CHR ''n'']
      else if c = CHR 0x0D then [CHR 0x5C, CHR ''r'']
      else if c = CHR 0x09 then [CHR 0x5C, CHR ''t'']
      else if c = CHR 0x08 then [CHR 0x5C, CHR ''b'']
      else if c = CHR 0x0C then [CHR 0x5C, CHR ''f'']
      else if of_char c < (32::nat)
      then [CHR 0x5C, CHR ''u'', CHR ''0'', CHR ''0'', hex_digit (of_char c div 16),
            hex_digit (of_char c mod 16)]
      else [c])"

definition json_string :: "string \<Rightarrow> string" where
  "json_string s = [CHR 0x22] @ concat (map json_escape_char s) @ [CHR 0x22]"

text \<open>\<^verbatim>\<open>sep.join(xs)\<close>\<close>

fun join :: "string \<Rightarrow> string list \<Rightarrow> string" where
  "join sep [] = []"
| "join sep [x] = x"
| "join sep (x # y # ys) = x @ sep @ join sep (y # ys)"

text \<open>\<^verbatim>\<open>json.dumps\<close> of a dict whose values are already dumped: \<^verbatim>\<open>{"k": v, "k": v}\<close>.\<close>

definition json_object :: "(string \<times> string) list \<Rightarrow> string" where
  "json_object items =
     ''{'' @ join '', '' (map (\<lambda>(k, v). json_string k @ '': '' @ v) items) @ ''}''"

definition dumps_selected_version :: "selected_version \<Rightarrow> string" where
  "dumps_selected_version v =
     json_object [(''version'', json_string (sel_version v)),
                  (''sha256'', json_string (sel_sha256 v)),
                  (''metadata'', json_string (sel_metadata v))]"

definition dumps_extension :: "extension \<Rightarrow> string" where
  "dumps_extension x =
     json_object [(''uuid'', json_string (ext_uuid x)),
                  (''name'', json_string (ext_name x)),
                  (''pname'', json_string (ext_pname x)),
                  (''description'', json_string (ext_description x)),
                  (''link'', json_string (ext_link x)),
                  (''shell_version_map'',
                   json_object (map (\<lambda>(k, v). (k, dumps_selected_version v))
                                  (ext_shell_version_map x)))]"

text \<open>The two replacements per supported version, in the order of \<^verbatim>\<open>supported_versions\<close>.\<close>

fun inject_line_breaks :: "string list \<Rightarrow> string \<Rightarrow> string" where
  "inject_line_breaks [] extension = extension"
| "inject_line_breaks (version # rest) extension =
     inject_line_breaks rest
       (replace
          (replace extension
             ([CHR ''{'', CHR 0x22] @ version @ [CHR 0x22] @ '': {'')
             ([CHR ''{'', CHR 0x0A] @ ''    '' @ [CHR 0x22] @ version @ [CHR 0x22] @ '': {''))
          ('', '' @ [CHR 0x22] @ version @ [CHR 0x22] @ '': {'')
          ([CHR '','', CHR 0x0A] @ ''    '' @ [CHR 0x22] @ version @ [CHR 0x22] @ '': {''))"

definition format_extension :: "extension \<Rightarrow> string" where
  "format_extension x =
     replace (inject_line_breaks (map fst supported_versions) (dumps_extension x))
       ''}}}'' ([CHR ''}'', CHR 0x0A] @ ''  }}'')"

text \<open>The writes of the loop over \<^verbatim>\<open>enumerate(processed_extensions)\<close>.\<close>

fun write_loop :: "nat \<Rightarrow> extension list \<Rightarrow> string" where
  "write_loop index [] = []"
| "write_loop index (x # rest) =
     (if index = 0 then ''[ '' else '', '') @ format_extension x @ [CHR 0x0A]
       @ write_loop (index + 1) rest"

text \<open>The text of \<^verbatim>\<open>extensions.json\<close> once the file is closed.\<close>

definition extensions_json :: "extension list \<Rightarrow> string" where
  "extensions_json processed_extensions = write_loop 0 processed_extensions @ [CHR '']'', CHR 0x0A]"

subsection \<open>The main block: the collision report\<close>

text \<open>
  \<^verbatim>\<open>float(v)\<close> for a string of decimal digits, which all keys of \<^verbatim>\<open>supported_versions\<close>
  are; the value is that number.
\<close>

definition float_label :: "string \<Rightarrow> nat" where
  "float_label v = fold (\<lambda>c n. 10 * n + (of_char c - 48)) v 0"

text \<open>\<^verbatim>\<open>sorted(xs, key=..., reverse=True)[:3]\<close>: stable, equal keys keep their order.\<close>

definition last_3_versions :: "string list" where
  "last_3_versions = take 3 (rev (sort_key float_label (rev (map fst supported_versions))))"

definition package_name_registry_for_versions :: "registry \<Rightarrow> (string \<times> string list) list list"
where
  "package_name_registry_for_versions reg =
     map snd (filter (\<lambda>(k, v). k \<in> set last_3_versions) reg)"

text \<open>
  A Python \<^verbatim>\<open>set\<close> of UUIDs is a list without repetition. Python leaves the order of a
  set open; the model keeps the order of first insertion. \<^verbatim>\<open>s.update(uuids)\<close>:
\<close>

definition set_update :: "string list \<Rightarrow> string list \<Rightarrow> string list" where
  "set_update s uuids = fold (\<lambda>u acc. if u \<in> set acc then acc else acc @ [u]) uuids s"

fun merge_pkgs ::
  "(string \<times> string list) list \<Rightarrow> (string \<times> string list) list \<Rightarrow> (string \<times> string list) list"
where
  "merge_pkgs [] filtered = filtered"
| "merge_pkgs ((pname, uuids) # rest) filtered =
     (case map_of filtered pname of
        None \<Rightarrow> merge_pkgs rest (AList.update pname (set_update [] uuids) filtered)
      | Some s \<Rightarrow> merge_pkgs rest (AList.update pname (set_update s uuids) filtered))"

definition package_name_registry_filtered :: "registry \<Rightarrow> (string \<times> string list) list" where
  "package_name_registry_filtered reg =
     filter (\<lambda>(k, v). length v > 1)
       (fold merge_pkgs (package_name_registry_for_versions reg) [])"

definition collisions :: "registry \<Rightarrow> (string \<times> string list) list" where
  "collisions reg = map (\<lambda>(k, v). (k, v)) (package_name_registry_filtered reg)"

text \<open>
  To state what the report holds: all identifiers that the registry lists under a short
  name in the given groups, with repetitions, in registry order.
\<close>

definition registered_uuids :: "registry \<Rightarrow> string list \<Rightarrow> string \<Rightarrow> string list" where
  "registered_uuids reg groups pname =
     concat (map (\<lambda>names. concat (map snd (filter (\<lambda>(q, uuids). q = pname) names)))
               (map snd (filter (\<lambda>(k, v). k \<in> set groups) reg)))"

text \<open>The identifiers a dict of sets holds for a short name; none when the name is absent.\<close>

definition uuid_set :: "(string \<times> string list) list \<Rightarrow> string \<Rightarrow> string set" where
  "uuid_set names pname = (case map_of names pname of None \<Rightarrow> {} | Some uuids \<Rightarrow> set uuids)"

text \<open>
  The check of \<^verbatim>\<open>json.load\<close> that matters below: a JSON text in which a control character
  (below 0x20) stands unescaped inside a string literal is rejected with JSONDecodeError.
  The scan follows the string literals of the text; the flag tells whether it is inside
  one.
\<close>

fun raw_control_in_string :: "bool \<Rightarrow> string \<Rightarrow> bool" where
  "raw_control_in_string inside [] = False"
| "raw_control_in_string False (c # cs) = raw_control_in_string (c = CHR 0x22) cs"
| "raw_control_in_string True [c] = (c \<noteq> CHR 0x22 \<and> c \<noteq> CHR 0x5C \<and> of_char c < (32::nat))"
| "raw_control_in_string True (c # d # cs) =
     (if c = CHR 0x5C then raw_control_in_string True cs
      else if c = CHR 0x22 then raw_control_in_string False (d # cs)
      else if of_char c < (32::nat) then True
      else raw_control_in_string True (d # cs))"

subsection \<open>Concrete worlds and records for the examples\<close>

text \<open>A world in which every download succeeds at once and no query page exists.\<close>

definition example_world :: world where
  "example_world =
     \<lparr>nix_prefetch_url = (\<lambda>n url. \<lparr>returncode = 0, stdout = ''0abc\<newline>/nix/store/x\<newline>'', stderr = []\<rparr>),
      metadata_json = (\<lambda>path. Some ''{}''),
      urlopen = (\<lambda>page attempt. HTTPFailure 404)\<rparr>"




text \<open>
  Every download succeeds, and \<^verbatim>\<open>metadata.json\<close> holds a JSON object with one member,
  \<^verbatim>\<open>name\<close>, whose value ends in U+00E9 (e with acute accent), the only character of the
  file outside ASCII.
\<close>

definition world_with_accent :: world where
  "world_with_accent =
     \<lparr>nix_prefetch_url =
        (\<lambda>n url. \<lparr>returncode = 0, stdout = ''0abc\<newline>/nix/store/x\<newline>'', stderr = []\<rparr>),
      metadata_json =
        (\<lambda>path. Some (''{'' @ [CHR 0x22] @ ''name'' @ [CHR 0x22] @ '': '' @ [CHR 0x22] @ ''caf''
                         @ [CHR 0xE9] @ [CHR 0x22] @ ''}'')),
      urlopen = (\<lambda>page attempt. HTTPFailure 404)\<rparr>"

text \<open>A catalog record whose extension version 3 serves two groups, 44 and 45.\<close>

definition example_extension :: raw_extension where
  "example_extension =
     \<lparr>raw_pk = 1, raw_uuid = ''a@b'', raw_name = ''A'', raw_description = ''d'',
      raw_link = ''/extension/1/foo/'', raw_shell_version_map = [(''44'', 3), (''45.1'', 3)]\<rparr>"

definition example_selected :: selected_version where
  "example_selected = \<lparr>sel_version = ''3'', sel_sha256 = ''0abc'', sel_metadata = ''e30=''\<rparr>"

definition example_processed :: extension where
  "example_processed =
     \<lparr>ext_uuid = ''a@b'', ext_name = ''A'', ext_pname = ''foo'', ext_description = ''d'',
      ext_link = ''https://extensions.gnome.org/extension/1/foo/'',
      ext_shell_version_map = [(''44'', example_selected), (''45'', example_selected)]\<rparr>"

text \<open>The registry after \<open>example_extension\<close> has been processed once, and twice.\<close>

definition registry_after_one :: registry where
  "registry_after_one =
     [(''38'', []), (''40'', []), (''41'', []), (''42'', []), (''43'', []),
      (''44'', [(''foo'', [''a@b''])]), (''45'', [(''foo'', [''a@b''])]),
      (''46'', []), (''47'', [])]"

definition registry_after_two :: registry where
  "registry_after_two =
     [(''38'', []), (''40'', []), (''41'', []), (''42'', []), (''43'', []),
      (''44'', [(''foo'', [''a@b'', ''a@b''])]), (''45'', [(''foo'', [''a@b'', ''a@b''])]),
      (''46'', []), (''47'', [])]"

text \<open>A server that answers every query with 403 Forbidden.\<close>

definition forbidden_world :: world where
  "forbidden_world =
     \<lparr>nix_prefetch_url = (\<lambda>n url. \<lparr>returncode = 0, stdout = [], stderr = []\<rparr>),
      metadata_json = (\<lambda>path. None),
      urlopen = (\<lambda>page attempt. HTTPFailure 403)\<rparr>"

text \<open>
  A server that answers 503 twice and then with a record; and two catalogs: one full page
  followed by a page of one record, and one full page followed by 404.
\<close>

definition flaky_server :: "nat \<Rightarrow> http_result" where
  "flaky_server attempt = (if attempt < 2 then HTTPFailure 503 else Response [example_extension])"

definition full_page_items :: "raw_extension list" where
  "full_page_items = replicate 25 (example_extension\<lparr>raw_pk := 2\<rparr>)"

definition two_page_world :: world where
  "two_page_world =
     \<lparr>nix_prefetch_url = (\<lambda>n url. \<lparr>returncode = 0, stdout = [], stderr = []\<rparr>),
      metadata_json = (\<lambda>path. None),
      urlopen = (\<lambda>page attempt.
                   if page = 1 then Response full_page_items
                   else if page = 2 then Response [example_extension]
                   else HTTPFailure 404)\<rparr>"

definition one_page_world :: world where
  "one_page_world =
     \<lparr>nix_prefetch_url = (\<lambda>n url. \<lparr>returncode = 0, stdout = [], stderr = []\<rparr>),
      metadata_json = (\<lambda>path. None),
      urlopen = (\<lambda>page attempt.
                   if page = 1 then Response full_page_items else HTTPFailure 404)\<rparr>"

text \<open>
  A registry in which \<^verbatim>\<open>foo\<close> is the short name of two extensions in the last three
  groups (and of two others in group 44), and \<^verbatim>\<open>bar\<close> of a single one.
\<close>

definition example_registry :: registry where
  "example_registry =
     [(''44'', [(''foo'', [''c@d'', ''e@f''])]),
      (''45'', [(''foo'', [''a@b'']), (''bar'', [''x@y''])]),
      (''46'', [(''foo'', [''a@b'', ''g@h''])]),
      (''47'', [(''bar'', [''x@y''])])]"

text \<open>
  An output record whose description is three closing braces, and the same record with
  a plain description.
\<close>

definition braces_processed :: extension where
  "braces_processed =
     \<lparr>ext_uuid = ''a@b'', ext_name = ''A'', ext_pname = ''foo'', ext_description = ''}}}'',
      ext_link = ''https://extensions.gnome.org/extension/1/foo/'',
      ext_shell_version_map = [(''47'', example_selected)]\<rparr>"

definition plain_processed :: extension where
  "plain_processed = braces_processed\<lparr>ext_description := ''d''\<rparr>"

section \<open>Properties\<close>

subsection \<open>The registry is untouched by downloads and by skipped records\<close>

lemma fetch_extension_data_registry:
  "package_name_registry (snd (fetch_extension_data w st u v)) = package_name_registry st"
  by (simp add: fetch_extension_data_def Let_def split: prod.splits option.splits)

lemma download_loop_registry:
  "package_name_registry (snd (download_loop w u vs c st)) = package_name_registry st"
proof (induction vs arbitrary: c st)
  case Nil
  then show ?case by simp
next
  case (Cons v vs)
  obtain r st1 where f: "fetch_extension_data w st u (str_int v) = (r, st1)"
    by (cases "fetch_extension_data w st u (str_int v)")
  have reg: "package_name_registry st1 = package_name_registry st"
    using fetch_extension_data_registry [of w st u "str_int v"] f by simp
  show ?case
  proof (cases r)
    case (Inl e)
    with f reg show ?thesis by simp
  next
    case (Inr info)
    with f reg Cons.IH [of "AList.update v info c" st1] show ?thesis by simp
  qed
qed

lemma generate_extension_versions_registry:
  "package_name_registry (snd (generate_extension_versions w st m u)) = package_name_registry st"
proof -
  let ?d = "download_loop w u (sort (remdups (map snd (extension_versions m)))) [] st"
  have "package_name_registry (snd ?d) = package_name_registry st"
    by (rule download_loop_registry)
  then show ?thesis
    by (cases ?d) (auto simp: generate_extension_versions_def Let_def split: sum.splits)
qed

lemma generate_extension_versions_none:
  "extension_versions m = [] \<Longrightarrow> generate_extension_versions w st m u = (Inr [], st)"
  by (simp add: generate_extension_versions_def)

text \<open>
  C10. A record is skipped when its compatibility map is empty or when no group is
  selected; then \<^verbatim>\<open>process_extension\<close> returns \<^verbatim>\<open>None\<close> and the whole state, the
  registry included, is as before. Conversely, whenever \<^verbatim>\<open>None\<close> is returned the registry
  is unchanged.
\<close>

theorem process_extension_skip_leaves_registry:
  "(raw_shell_version_map x = [] \<or> extension_versions (raw_shell_version_map x) = []
      \<longrightarrow> process_extension w st x = (Inr None, st))
   \<and> (fst (process_extension w st x) = Inr None
      \<longrightarrow> package_name_registry (snd (process_extension w st x)) = package_name_registry st)"
proof (intro conjI impI)
  assume "raw_shell_version_map x = [] \<or> extension_versions (raw_shell_version_map x) = []"
  then show "process_extension w st x = (Inr None, st)"
    by (auto simp: process_extension_def generate_extension_versions_none)
next
  assume skipped: "fst (process_extension w st x) = Inr None"
  let ?g = "generate_extension_versions w st (raw_shell_version_map x) (raw_uuid x)"
  have g: "package_name_registry (snd ?g) = package_name_registry st"
    by (rule generate_extension_versions_registry)
  show "package_name_registry (snd (process_extension w st x)) = package_name_registry st"
  proof (cases "raw_shell_version_map x = []")
    case True
    then show ?thesis by (simp add: process_extension_def)
  next
    case False
    obtain r st1 where eq: "?g = (r, st1)" by (cases ?g)
    with g have reg: "package_name_registry st1 = package_name_registry st" by simp
    from skipped False eq reg show ?thesis
      by (auto simp: process_extension_def split: sum.splits if_splits prod.splits option.splits)
  qed
qed

lemma extension_versions_old: "extension_versions [(''3.36'', 7)] = []"
  by (simp add: extension_versions_def supported_versions_def compatible_versions_def startswith_def)

theorem process_extension_skip_leaves_registry_witness:
  "extension_versions [(''3.36'', 7)] = []
   \<and> process_extension example_world initial_state
        \<lparr>raw_pk = 1, raw_uuid = ''a@b'', raw_name = ''A'', raw_description = ''d'',
           raw_link = ''/extension/1/a/'', raw_shell_version_map = [(''3.36'', 7)]\<rparr>
       = (Inr None, initial_state)"
  using process_extension_skip_leaves_registry
    [of "\<lparr>raw_pk = 1, raw_uuid = ''a@b'', raw_name = ''A'', raw_description = ''d'',
           raw_link = ''/extension/1/a/'', raw_shell_version_map = [(''3.36'', 7)]\<rparr>"
        example_world initial_state]
  by (simp add: extension_versions_old)

subsection \<open>Version selection\<close>

lemma py_max_Max: "py_max xs = (if xs = [] then None else Some (Max (set xs)))"
  by (cases xs) (simp_all add: Max.set_eq_fold [symmetric])

lemma extension_versions_loop_lookup:
  "distinct (map fst svs) \<Longrightarrow>
   map_of (extension_versions_loop svs m acc) g =
     (case map_of svs g of
        None \<Rightarrow> map_of acc g
      | Some p \<Rightarrow>
          (case py_max (compatible_versions m p) of
             None \<Rightarrow> map_of acc g
           | Some v \<Rightarrow> if v = 0 then map_of acc g else Some v))"
proof (induction svs m acc rule: extension_versions_loop.induct)
  case (1 m acc)
  then show ?case by simp
next
  case (2 sv p rest m acc)
  from "2.prems" have d: "distinct (map fst rest)" and n: "sv \<notin> fst ` set rest" by auto
  from n have none: "map_of rest sv = None" by (simp add: map_of_eq_None_iff)
  show ?case
  proof (cases "py_max (compatible_versions m p)")
    case None
    with "2.IH"(1) [OF None d] none show ?thesis
      by (auto split: option.splits)
  next
    case (Some v)
    show ?thesis
    proof (cases "v = 0")
      case True
      with Some "2.IH"(2) [OF Some True d] none show ?thesis
        by (auto split: option.splits)
    next
      case False
      with Some "2.IH"(3) [OF Some False d] none show ?thesis
        by (auto simp: update_conv' split: option.splits)
    qed
  qed
qed

lemma distinct_supported_versions: "distinct (map fst supported_versions)"
  by (simp add: supported_versions_def)

text \<open>
  What the first loop computes: a supported group is given the largest version among the
  entries whose label starts with its prefix, unless there is no such entry or that
  largest version is \<open>0\<close>; then the group is left out.
\<close>

lemma extension_versions_selects_max:
  assumes "(g, p) \<in> set supported_versions"
  shows "map_of (extension_versions m) g =
           (if compatible_versions m p = [] \<or> Max (set (compatible_versions m p)) = 0 then None
            else Some (Max (set (compatible_versions m p))))"
proof -
  from assms have "map_of supported_versions g = Some p"
    by (simp add: distinct_supported_versions)
  then show ?thesis
    by (simp add: extension_versions_def extension_versions_loop_lookup
        distinct_supported_versions py_max_Max)
qed

lemma extension_versions_other_group:
  assumes "g \<notin> fst ` set supported_versions"
  shows "map_of (extension_versions m) g = None"
proof -
  from assms have "map_of supported_versions g = None"
    by (simp only: map_of_eq_None_iff not_False_eq_True)
  then show ?thesis
    by (simp add: extension_versions_def extension_versions_loop_lookup
        distinct_supported_versions)
qed

text \<open>
  C2. The claim asks that a group be absent exactly when no label matches its prefix.
  For the map \<^verbatim>\<open>{"44": 0}\<close> the label \<^verbatim>\<open>"44"\<close> matches the prefix of group 44 and
  the largest matching version is \<open>0\<close>, yet the truth test
  \<^verbatim>\<open>if not extension_version\<close> takes \<open>0\<close> for \<^verbatim>\<open>None\<close>: the group is dropped and the
  result is empty.
\<close>

theorem version_zero_group_dropped:
  "compatible_versions [(''44'', 0)] ''44'' = [0]
   \<and> extension_versions [(''44'', 0)] = []
   \<and> generate_extension_versions example_world initial_state [(''44'', 0)] ''a@b''
       = (Inr [], initial_state)"
  by (simp add: generate_extension_versions_def extension_versions_def supported_versions_def
      compatible_versions_def startswith_def)

text \<open>The example of the specification.\<close>

lemma extension_versions_spec_example: "extension_versions [(''44'', 10), (''44.1'', 12), (''45'', 3)] = [(''44'', 12), (''45'', 3)]"
  by (simp add: extension_versions_def supported_versions_def compatible_versions_def startswith_def)

subsection \<open>The download loop of \<^verbatim>\<open>fetch_extension_data\<close>\<close>


lemma prefetch_loop_success:
  "k < n \<Longrightarrow> returncode (nix_prefetch_url w (length log + k) url) = 0 \<Longrightarrow>
   \<forall>j<k. returncode (nix_prefetch_url w (length log + j) url) \<noteq> 0 \<Longrightarrow>
   prefetch_loop w url n p log =
     (Some (nix_prefetch_url w (length log + k) url), log @ replicate (Suc k) url)"
proof (induction n arbitrary: p log k)
  case 0
  then show ?case by simp
next
  case (Suc n)
  show ?case
  proof (cases k)
    case 0
    with Suc.prems show ?thesis by (simp add: Let_def)
  next
    case (Suc k')
    from Suc Suc.prems have first: "returncode (nix_prefetch_url w (length log) url) \<noteq> 0"
      by (metis add.right_neutral zero_less_Suc)
    from Suc Suc.prems have lt: "k' < n" by simp
    from Suc Suc.prems
    have ok: "returncode (nix_prefetch_url w (length (log @ [url]) + k') url) = 0" by simp
    have later: "\<forall>j<k'. returncode (nix_prefetch_url w (length (log @ [url]) + j) url) \<noteq> 0"
    proof (intro allI impI)
      fix j assume "j < k'"
      then have "Suc j < k" using Suc by simp
      with Suc.prems have "returncode (nix_prefetch_url w (length log + Suc j) url) \<noteq> 0"
        by blast
      then show "returncode (nix_prefetch_url w (length (log @ [url]) + j) url) \<noteq> 0"
        by simp
    qed
    show ?thesis
      using first Suc
        Suc.IH [OF lt ok later, of "Some (nix_prefetch_url w (length log) url)"]
      by (simp add: Let_def replicate_app_Cons_same)
  qed
qed


lemma read_result_ok:
  "splitlines (stdout p) = l0 # l1 # ls \<Longrightarrow> metadata_json w (strip l1) = Some text \<Longrightarrow>
   list_all (\<lambda>c. of_char c < (128::nat)) text \<Longrightarrow>
   read_result w p = Inr (strip l0, b64encode (map of_char text))"
  by (simp add: read_result_def encode_ascii_def Let_def)


lemma fetch_extension_data_success:
  assumes "k < 10"
    and "returncode (nix_prefetch_url w (length (prefetch_log st) + k) (extension_url u v)) = 0"
    and "\<forall>j<k. returncode (nix_prefetch_url w (length (prefetch_log st) + j)
                               (extension_url u v)) \<noteq> 0"
  shows "fetch_extension_data w st u v =
           (read_result w (nix_prefetch_url w (length (prefetch_log st) + k) (extension_url u v)),
            st\<lparr>prefetch_log := prefetch_log st @ replicate (Suc k) (extension_url u v),
               fetch_log := fetch_log st @ [(u, v)]\<rparr>)"
  using assms(2) prefetch_loop_success [OF assms, of None]
  by (simp add: fetch_extension_data_def Let_def)



lemma extension_url_example:
  "extension_url ''a@b'' ''3'' =
     ''https://extensions.gnome.org/extension-data/ab.v3.shell-extension.zip''"
  by (simp add: extension_url_def replace_def startswith_def)

lemma splitlines_example: "splitlines ''0abc\<newline>/nix/store/x\<newline>'' = [''0abc'', ''/nix/store/x'']"
  by (simp add: splitlines_def is_linebreak_def)




lemma first_call_succeeds:
  "nix_prefetch_url w = (\<lambda>n url. \<lparr>returncode = 0, stdout = out, stderr = err\<rparr>) \<Longrightarrow>
   fetch_extension_data w initial_state u v =
     (read_result w \<lparr>returncode = 0, stdout = out, stderr = err\<rparr>,
      initial_state\<lparr>prefetch_log := [extension_url u v], fetch_log := [(u, v)]\<rparr>)"
  using fetch_extension_data_success [of 0 w initial_state u v]
  by (simp add: initial_state_def)


text \<open>
  C8. The metadata file of \<open>world_with_accent\<close> is valid UTF-8 text with one character
  outside ASCII. The download succeeds at once, and \<^verbatim>\<open>.encode("ascii")\<close> raises
  UnicodeEncodeError instead of the hash and the encoded metadata being returned.
\<close>

theorem fetch_extension_data_rejects_non_ascii:
  "fetch_extension_data world_with_accent initial_state ''a@b'' ''3'' =
     (Inl UnicodeEncodeError,
      initial_state
        \<lparr>prefetch_log :=
           [''https://extensions.gnome.org/extension-data/ab.v3.shell-extension.zip''],
         fetch_log := [(''a@b'', ''3'')]\<rparr>)"
proof -
  have "read_result world_with_accent
          \<lparr>returncode = 0, stdout = ''0abc\<newline>/nix/store/x\<newline>'', stderr = []\<rparr>
        = Inl UnicodeEncodeError"
    by (simp add: read_result_def splitlines_example world_with_accent_def encode_ascii_def)
  then show ?thesis
    using first_call_succeeds [of world_with_accent "''0abc\<newline>/nix/store/x\<newline>''" "[]"
        "''a@b''" "''3''"]
    by (simp add: extension_url_example world_with_accent_def)
qed

subsection \<open>One download per chosen version\<close>

lemma fetch_extension_data_fetch_log:
  "fetch_log (snd (fetch_extension_data w st u v)) = fetch_log st @ [(u, v)]"
  by (simp add: fetch_extension_data_def Let_def split: prod.splits option.splits)

lemma download_loop_fetch_log:
  "\<exists>n\<le>length vs.
     fetch_log (snd (download_loop w u vs c st))
       = fetch_log st @ map (\<lambda>v. (u, str_int v)) (take n vs)
     \<and> ((\<exists>r. fst (download_loop w u vs c st) = Inr r) \<longrightarrow> n = length vs)"
proof (induction vs arbitrary: c st)
  case Nil
  then show ?case by simp
next
  case (Cons v vs)
  obtain r st1 where f: "fetch_extension_data w st u (str_int v) = (r, st1)"
    by (cases "fetch_extension_data w st u (str_int v)")
  have log1: "fetch_log st1 = fetch_log st @ [(u, str_int v)]"
    using fetch_extension_data_fetch_log [of w st u "str_int v"] f by simp
  show ?case
  proof (cases r)
    case (Inl e)
    with f log1 show ?thesis
      by (intro exI [of _ 1]) simp
  next
    case (Inr info)
    from Cons.IH [of "AList.update v info c" st1]
    obtain n where n: "n \<le> length vs"
      "fetch_log (snd (download_loop w u vs (AList.update v info c) st1))
         = fetch_log st1 @ map (\<lambda>v. (u, str_int v)) (take n vs)"
      "(\<exists>r. fst (download_loop w u vs (AList.update v info c) st1) = Inr r) \<longrightarrow> n = length vs"
      by blast
    with f Inr log1 show ?thesis
      by (intro exI [of _ "Suc n"]) simp
  qed
qed

text \<open>
  One call of \<^verbatim>\<open>generate_extension_versions\<close> adds to the log of
  \<^verbatim>\<open>fetch_extension_data\<close> invocations an initial segment of the chosen versions, sorted
  and without repetition; all of them when the call returns.
\<close>

lemma generate_extension_versions_fetch_log:
  "\<exists>n\<le>length (sort (remdups (map snd (extension_versions m)))).
     fetch_log (snd (generate_extension_versions w st m u))
       = fetch_log st
         @ map (\<lambda>v. (u, str_int v)) (take n (sort (remdups (map snd (extension_versions m)))))
     \<and> distinct (take n (sort (remdups (map snd (extension_versions m)))))
     \<and> ((\<exists>r. fst (generate_extension_versions w st m u) = Inr r)
          \<longrightarrow> n = length (sort (remdups (map snd (extension_versions m)))))"
proof -
  let ?vs = "sort (remdups (map snd (extension_versions m)))"
  let ?d = "download_loop w u ?vs [] st"
  from download_loop_fetch_log [of ?vs w u "[]" st]
  obtain n where n: "n \<le> length ?vs"
    "fetch_log (snd ?d) = fetch_log st @ map (\<lambda>v. (u, str_int v)) (take n ?vs)"
    "(\<exists>r. fst ?d = Inr r) \<longrightarrow> n = length ?vs"
    by blast
  have snd_eq: "snd (generate_extension_versions w st m u) = snd ?d"
    by (cases ?d) (auto simp: generate_extension_versions_def Let_def split: sum.splits)
  have ok: "(\<exists>r. fst (generate_extension_versions w st m u) = Inr r) \<longrightarrow> (\<exists>r. fst ?d = Inr r)"
    by (cases ?d) (auto simp: generate_extension_versions_def Let_def split: sum.splits)
  have "distinct (take n ?vs)"
    by (simp add: distinct_take)
  with n snd_eq ok show ?thesis
    by (intro exI [of _ n]) auto
qed

lemma always_succeeds:
  "nix_prefetch_url w = (\<lambda>n url. \<lparr>returncode = 0, stdout = out, stderr = err\<rparr>) \<Longrightarrow>
   fetch_extension_data w st u v =
     (read_result w \<lparr>returncode = 0, stdout = out, stderr = err\<rparr>,
      st\<lparr>prefetch_log := prefetch_log st @ [extension_url u v],
         fetch_log := fetch_log st @ [(u, v)]\<rparr>)"
  using fetch_extension_data_success [of 0 w st u v]
  by simp

lemma example_world_fetch:
  "fetch_extension_data example_world st u ''3'' =
     (Inr (''0abc'', ''e30=''),
      st\<lparr>prefetch_log := prefetch_log st @ [extension_url u ''3''],
         fetch_log := fetch_log st @ [(u, ''3'')]\<rparr>)"
proof -
  have "read_result example_world
          \<lparr>returncode = 0, stdout = ''0abc\<newline>/nix/store/x\<newline>'', stderr = []\<rparr>
        = Inr (''0abc'', ''e30='')"
    using read_result_ok [of "\<lparr>returncode = 0, stdout = ''0abc\<newline>/nix/store/x\<newline>'', stderr = []\<rparr>"
        "''0abc''" "''/nix/store/x''" "[]" example_world "''{}''"]
    by (simp add: splitlines_example example_world_def strip_def isspace_def b64_char_def)
  then show ?thesis
    using always_succeeds [of example_world "''0abc\<newline>/nix/store/x\<newline>''" "[]" st u "''3''"]
    by (simp add: example_world_def)
qed

lemma example_extension_versions:
  "extension_versions [(''44'', 3), (''45.1'', 3)] = [(''44'', 3), (''45'', 3)]"
  by (simp add: extension_versions_def supported_versions_def compatible_versions_def
      startswith_def)

lemma str_int_3: "str_int 3 = ''3''"
  by (simp add: str_int_def str_nat.simps digit_char_def)

lemma example_generate:
  "generate_extension_versions example_world st [(''44'', 3), (''45.1'', 3)] u =
     (Inr [(''44'', example_selected), (''45'', example_selected)],
      st\<lparr>prefetch_log := prefetch_log st @ [extension_url u ''3''],
         fetch_log := fetch_log st @ [(u, ''3'')]\<rparr>)"
  by (simp add: generate_extension_versions_def example_extension_versions str_int_3
      example_world_fetch example_selected_def)

lemma example_process_first:
  "process_extension example_world
     \<lparr>package_name_registry = initial_registry, prefetch_log = pl, fetch_log = fl,
        warning_log = wl\<rparr>
     example_extension =
   (Inr (Some example_processed),
    \<lparr>package_name_registry = registry_after_one,
       prefetch_log = pl @ [extension_url ''a@b'' ''3''],
       fetch_log = fl @ [(''a@b'', ''3'')],
       warning_log = wl\<rparr>)"
  by (simp add: process_extension_def example_extension_def example_generate pname_from_url_def
      initial_registry_def supported_versions_def example_processed_def registry_after_one_def)

lemma example_process_second:
  "process_extension example_world
     \<lparr>package_name_registry = registry_after_one, prefetch_log = pl, fetch_log = fl,
        warning_log = wl\<rparr>
     example_extension =
   (Inr (Some example_processed),
    \<lparr>package_name_registry = registry_after_two,
       prefetch_log = pl @ [extension_url ''a@b'' ''3''],
       fetch_log = fl @ [(''a@b'', ''3'')],
       warning_log = wl @ [(''foo'', ''44''), (''foo'', ''45'')]\<rparr>)"
  by (simp add: process_extension_def example_extension_def example_generate pname_from_url_def
      example_processed_def registry_after_one_def registry_after_two_def)

subsection \<open>One download per identifier and version in a run\<close>

lemma digit_below_ten: "d < 10 \<Longrightarrow> d \<in> {0, 1, 2, 3, 4, 5, 6, 7, 8, 9::nat}"
  by auto

lemma digit_char_value: "d < 10 \<Longrightarrow> of_char (digit_char d) = 48 + d"
  by (drule digit_below_ten) (auto simp: digit_char_def)

lemma digit_char_not_minus: "d < 10 \<Longrightarrow> digit_char d \<noteq> CHR ''-''"
  by (drule digit_below_ten) (auto simp: digit_char_def)

lemma float_label_snoc: "float_label (s @ [c]) = 10 * float_label s + (of_char c - 48)"
  by (simp add: float_label_def)

lemma float_label_str_nat: "float_label (str_nat n) = n"
proof (induction n rule: str_nat.induct)
  case (1 n)
  show ?case
  proof (cases "n < 10")
    case True
    then show ?thesis
      by (subst str_nat.simps) (simp add: float_label_def digit_char_value)
  next
    case False
    then have ih: "float_label (str_nat (n div 10)) = n div 10"
      by (rule "1.IH")
    have "n mod 10 < 10" by simp
    then have "of_char (digit_char (n mod 10)) - 48 = n mod 10"
      by (simp add: digit_char_value)
    with False ih show ?thesis
      by (subst str_nat.simps) (simp add: float_label_snoc)
  qed
qed

lemma str_nat_digits: "CHR ''-'' \<notin> set (str_nat n)"
proof (induction n rule: str_nat.induct)
  case (1 n)
  note digit = digit_char_not_minus
  show ?case
  proof (cases "n < 10")
    case True
    with digit have "digit_char n \<noteq> CHR ''-''" by blast
    with True show ?thesis
      by (subst str_nat.simps) auto
  next
    case False
    have "n mod 10 < 10" by simp
    with digit have "digit_char (n mod 10) \<noteq> CHR ''-''" by blast
    with False "1.IH" show ?thesis
      by (subst str_nat.simps) auto
  qed
qed

lemma str_nat_inject: "str_nat m = str_nat n \<Longrightarrow> m = n"
  by (metis float_label_str_nat)

lemma str_int_inject: "str_int i = str_int j \<Longrightarrow> i = j"
proof -
  assume eq: "str_int i = str_int j"
  show "i = j"
  proof (cases "i < 0")
    case True
    show ?thesis
    proof (cases "j < 0")
      case j: True
      with True eq have "str_nat (nat (- i)) = str_nat (nat (- j))"
        by (simp add: str_int_def)
      then have "nat (- i) = nat (- j)" by (rule str_nat_inject)
      with True j show ?thesis by simp
    next
      case False
      with True eq have "CHR ''-'' # str_nat (nat (- i)) = str_nat (nat j)"
        by (simp add: str_int_def)
      then have "CHR ''-'' \<in> set (str_nat (nat j))"
        by (metis list.set_intros(1))
      with str_nat_digits show ?thesis by blast
    qed
  next
    case False
    show ?thesis
    proof (cases "j < 0")
      case True
      with False eq have "str_nat (nat i) = CHR ''-'' # str_nat (nat (- j))"
        by (simp add: str_int_def)
      then have "CHR ''-'' \<in> set (str_nat (nat i))"
        by (metis list.set_intros(1))
      with str_nat_digits show ?thesis by blast
    next
      case j: False
      with False eq have "str_nat (nat i) = str_nat (nat j)"
        by (simp add: str_int_def)
      then have "nat i = nat j" by (rule str_nat_inject)
      with False j show ?thesis by simp
    qed
  qed
qed

lemma generate_extension_versions_new_fetches:
  "\<exists>vs. distinct vs
     \<and> fetch_log (snd (generate_extension_versions w st m u))
         = fetch_log st @ map (\<lambda>v. (u, str_int v)) vs"
proof -
  let ?vs = "sort (remdups (map snd (extension_versions m)))"
  let ?d = "download_loop w u ?vs [] st"
  from download_loop_fetch_log [of ?vs w u "[]" st]
  obtain n where "fetch_log (snd ?d) = fetch_log st @ map (\<lambda>v. (u, str_int v)) (take n ?vs)"
    by blast
  moreover have "snd (generate_extension_versions w st m u) = snd ?d"
    by (cases ?d) (auto simp: generate_extension_versions_def Let_def split: sum.splits)
  moreover have "distinct (take n ?vs)"
    by (simp add: distinct_take)
  ultimately show ?thesis
    by (intro exI [of _ "take n ?vs"]) simp
qed

lemma process_extension_new_fetches:
  "\<exists>vs. distinct vs
     \<and> fetch_log (snd (process_extension w st x))
         = fetch_log st @ map (\<lambda>v. (raw_uuid x, str_int v)) vs"
proof (cases "raw_shell_version_map x = []")
  case True
  then have "fetch_log (snd (process_extension w st x)) = fetch_log st"
    by (simp add: process_extension_def)
  then show ?thesis by (intro exI [of _ "[]"]) simp
next
  case False
  let ?g = "generate_extension_versions w st (raw_shell_version_map x) (raw_uuid x)"
  have "fetch_log (snd (process_extension w st x)) = fetch_log (snd ?g)"
    using False
    by (cases ?g)
      (auto simp: process_extension_def split: sum.splits prod.splits option.splits)
  with generate_extension_versions_new_fetches [of w st "raw_shell_version_map x" "raw_uuid x"]
  show ?thesis by simp
qed

lemma process_all_fetch_log:
  "distinct (map raw_uuid raws) \<Longrightarrow> distinct (fetch_log st) \<Longrightarrow>
   fst ` set (fetch_log st) \<inter> raw_uuid ` set raws = {} \<Longrightarrow>
   distinct (fetch_log (snd (process_all w raws processed st)))"
proof (induction raws arbitrary: processed st)
  case Nil
  then show ?case by simp
next
  case (Cons x raws)
  obtain r st1 where p: "process_extension w st x = (r, st1)"
    by (cases "process_extension w st x")
  from process_extension_new_fetches [of w st x] p
  obtain vs where vs: "distinct vs"
    and log: "fetch_log st1 = fetch_log st @ map (\<lambda>v. (raw_uuid x, str_int v)) vs"
    by auto
  have new: "distinct (map (\<lambda>v. (raw_uuid x, str_int v)) vs)"
    using vs by (auto simp: distinct_map inj_on_def dest: str_int_inject)
  from Cons.prems(3) have fresh: "raw_uuid x \<notin> fst ` set (fetch_log st)"
    by auto
  have d1: "distinct (fetch_log st1)"
    using Cons.prems(2) new fresh by (force simp: log)
  from Cons.prems(1) have d: "distinct (map raw_uuid raws)" and nx: "raw_uuid x \<notin> raw_uuid ` set raws"
    by auto
  have disj: "fst ` set (fetch_log st1) \<inter> raw_uuid ` set raws = {}"
    using Cons.prems(3) nx by (auto simp: log)
  note ih = Cons.IH [OF d d1 disj]
  show ?case
  proof (cases r)
    case (Inl e)
    with p d1 show ?thesis by simp
  next
    case (Inr result)
    with p ih show ?thesis by (cases result) simp_all
  qed
qed

lemma process_all_distinct_fetch_log:
  "distinct (map raw_uuid raws) \<Longrightarrow>
   distinct (fetch_log (snd (process_all w raws [] initial_state)))"
  by (rule process_all_fetch_log) (simp_all add: initial_state_def)

text \<open>
  C7. One call of \<^verbatim>\<open>generate_extension_versions\<close> invokes \<^verbatim>\<open>fetch_extension_data\<close>
  for an initial segment of the chosen versions, sorted and without repetition (all of
  them when the call returns): every chosen version is downloaded at most once, however
  many groups it serves. In a whole run over catalog records with pairwise different
  identifiers, no (identifier, version) pair is fetched twice.
\<close>

theorem generate_extension_versions_fetches_once:
  "(\<exists>n\<le>length (sort (remdups (map snd (extension_versions m)))).
      fetch_log (snd (generate_extension_versions w st m u))
        = fetch_log st
          @ map (\<lambda>v. (u, str_int v)) (take n (sort (remdups (map snd (extension_versions m)))))
      \<and> distinct (take n (sort (remdups (map snd (extension_versions m)))))
      \<and> ((\<exists>r. fst (generate_extension_versions w st m u) = Inr r)
           \<longrightarrow> n = length (sort (remdups (map snd (extension_versions m))))))
   \<and> (distinct (map raw_uuid raws)
        \<longrightarrow> distinct (fetch_log (snd (process_all w raws [] initial_state))))"
  using generate_extension_versions_fetch_log [of m w st u]
    process_all_distinct_fetch_log [of raws w]
  by blast

theorem generate_extension_versions_fetches_once_witness:
  "fetch_log (snd (generate_extension_versions example_world initial_state
                     [(''44'', 3), (''45.1'', 3)] ''a@b'')) = [(''a@b'', ''3'')]
   \<and> distinct (map raw_uuid [example_extension, example_extension\<lparr>raw_uuid := ''c@d''\<rparr>])
   \<and> fetch_log (snd (process_all example_world
                         [example_extension, example_extension\<lparr>raw_uuid := ''c@d''\<rparr>] []
                         initial_state))
       = [(''a@b'', ''3''), (''c@d'', ''3'')]
   \<and> distinct (fetch_log (snd (process_all example_world
                         [example_extension, example_extension\<lparr>raw_uuid := ''c@d''\<rparr>] []
                         initial_state)))"
proof -
  let ?raws = "[example_extension, example_extension\<lparr>raw_uuid := ''c@d''\<rparr>]"
  have ids: "distinct (map raw_uuid ?raws)"
    by (simp add: example_extension_def)
  have second: "fetch_log (snd (process_extension example_world
                    \<lparr>package_name_registry = registry_after_one, prefetch_log = pl,
                       fetch_log = fl, warning_log = wl\<rparr>
                    (example_extension\<lparr>raw_uuid := ''c@d''\<rparr>)))
                  = fl @ [(''c@d'', ''3'')]" for pl fl wl
    by (simp add: process_extension_def example_extension_def example_generate
        pname_from_url_def registry_after_one_def split: prod.splits option.splits)
  let ?st1 = "\<lparr>package_name_registry = registry_after_one,
                 prefetch_log = [extension_url ''a@b'' ''3''], fetch_log = [(''a@b'', ''3'')],
                 warning_log = []\<rparr>"
  obtain r st2 where
    p2: "process_extension example_world ?st1 (example_extension\<lparr>raw_uuid := ''c@d''\<rparr>)
           = (r, st2)"
    by (cases "process_extension example_world ?st1 (example_extension\<lparr>raw_uuid := ''c@d''\<rparr>)")
  with second [of "[extension_url ''a@b'' ''3'']" "[(''a@b'', ''3'')]" "[]"]
  have log2: "fetch_log st2 = [(''a@b'', ''3''), (''c@d'', ''3'')]"
    by simp
  have run: "fetch_log (snd (process_all example_world ?raws [] initial_state))
               = [(''a@b'', ''3''), (''c@d'', ''3'')]"
    using example_process_first [of "[]" "[]" "[]"] p2 log2
    by (simp add: initial_state_def split: sum.splits option.splits)
  note inst = generate_extension_versions_fetches_once
    [of "[(''44'', 3), (''45.1'', 3)]" example_world initial_state "''a@b''" ?raws]
  from inst have call: "fetch_log (snd (generate_extension_versions example_world initial_state
                     [(''44'', 3), (''45.1'', 3)] ''a@b'')) = [(''a@b'', ''3'')]"
    by (simp add: example_generate initial_state_def)
  from inst ids
  have "distinct (fetch_log (snd (process_all example_world ?raws [] initial_state)))"
    by blast
  with call ids run show ?thesis by simp
qed

subsection \<open>The registry update of \<^verbatim>\<open>process_extension\<close>\<close>

lemma fetch_extension_data_warning_log:
  "warning_log (snd (fetch_extension_data w st u v)) = warning_log st"
  by (simp add: fetch_extension_data_def Let_def split: prod.splits option.splits)

lemma download_loop_warning_log:
  "warning_log (snd (download_loop w u vs c st)) = warning_log st"
proof (induction vs arbitrary: c st)
  case Nil
  then show ?case by simp
next
  case (Cons v vs)
  obtain r st1 where f: "fetch_extension_data w st u (str_int v) = (r, st1)"
    by (cases "fetch_extension_data w st u (str_int v)")
  have ws: "warning_log st1 = warning_log st"
    using fetch_extension_data_warning_log [of w st u "str_int v"] f by simp
  show ?case
  proof (cases r)
    case (Inl e)
    with f ws show ?thesis by simp
  next
    case (Inr info)
    with f ws Cons.IH [of "AList.update v info c" st1] show ?thesis by simp
  qed
qed

lemma generate_extension_versions_warning_log:
  "warning_log (snd (generate_extension_versions w st m u)) = warning_log st"
proof -
  let ?d = "download_loop w u (sort (remdups (map snd (extension_versions m)))) [] st"
  have "warning_log (snd ?d) = warning_log st"
    by (rule download_loop_warning_log)
  then show ?thesis
    by (cases ?d) (auto simp: generate_extension_versions_def Let_def split: sum.splits)
qed

lemma registry_entry_update:
  "registry_entry (AList.update g (AList.update p us names) reg) g' q =
     (if g' = g \<and> q = p then Some us
      else if g' = g then map_of names q
      else registry_entry reg g' q)"
  by (simp add: registry_entry_def update_conv')

lemma register_loop_entries:
  "distinct gs \<Longrightarrow> register_loop gs p u reg ws = (None, reg', ws') \<Longrightarrow>
   registry_entry reg' g q =
     (if g \<in> set gs \<and> q = p
      then Some ((case registry_entry reg g q of None \<Rightarrow> [] | Some uuids \<Rightarrow> uuids) @ [u])
      else registry_entry reg g q)"
proof (induction gs arbitrary: reg ws)
  case Nil
  then show ?case by simp
next
  case (Cons g0 gs)
  from Cons.prems(2) obtain names where names: "map_of reg g0 = Some names"
    by (auto split: option.splits)
  let ?old = "case map_of names p of None \<Rightarrow> [] | Some uuids \<Rightarrow> uuids"
  let ?reg1 = "AList.update g0 (AList.update p (?old @ [u]) names) reg"
  let ?ws1 = "case map_of names p of None \<Rightarrow> ws | Some uuids \<Rightarrow> ws @ [(p, g0)]"
  from Cons.prems(2) names have rest: "register_loop gs p u ?reg1 ?ws1 = (None, reg', ws')"
    by (auto split: option.splits)
  from Cons.prems(1) have d: "distinct gs" and fresh: "g0 \<notin> set gs" by auto
  have step: "registry_entry ?reg1 g q =
     (if g = g0 \<and> q = p then Some (?old @ [u]) else registry_entry reg g q)"
    using names by (simp add: registry_entry_update) (simp add: registry_entry_def)
  have old: "registry_entry reg g0 p = map_of names p"
    using names by (simp add: registry_entry_def)
  note ih = Cons.IH [OF d rest, unfolded step]
  show ?case
  proof (cases "g = g0 \<and> q = p")
    case True
    with ih fresh old show ?thesis by simp
  next
    case False
    with ih show ?thesis by auto
  qed
qed

lemma register_loop_warnings:
  "distinct gs \<Longrightarrow> register_loop gs p u reg ws = (None, reg', ws') \<Longrightarrow>
   ws' = ws @ map (\<lambda>g. (p, g)) (filter (\<lambda>g. registry_entry reg g p \<noteq> None) gs)"
proof (induction gs arbitrary: reg ws)
  case Nil
  then show ?case by simp
next
  case (Cons g0 gs)
  from Cons.prems(2) obtain names where names: "map_of reg g0 = Some names"
    by (auto split: option.splits)
  let ?old = "case map_of names p of None \<Rightarrow> [] | Some uuids \<Rightarrow> uuids"
  let ?reg1 = "AList.update g0 (AList.update p (?old @ [u]) names) reg"
  let ?ws1 = "case map_of names p of None \<Rightarrow> ws | Some uuids \<Rightarrow> ws @ [(p, g0)]"
  from Cons.prems(2) names have rest: "register_loop gs p u ?reg1 ?ws1 = (None, reg', ws')"
    by (auto split: option.splits)
  from Cons.prems(1) have d: "distinct gs" and fresh: "g0 \<notin> set gs" by auto
  have same: "registry_entry ?reg1 g p = registry_entry reg g p" if "g \<in> set gs" for g
  proof -
    from that fresh have "g \<noteq> g0" by auto
    then show ?thesis by (simp add: registry_entry_update)
  qed
  then have filter_eq: "filter (\<lambda>g. registry_entry ?reg1 g p \<noteq> None) gs
                      = filter (\<lambda>g. registry_entry reg g p \<noteq> None) gs"
    by (intro filter_cong) simp_all
  have old: "registry_entry reg g0 p = map_of names p"
    using names by (simp add: registry_entry_def)
  from Cons.IH [OF d rest]
  have "ws' = ?ws1 @ map (\<lambda>g. (p, g)) (filter (\<lambda>g. registry_entry reg g p \<noteq> None) gs)"
    by (simp only: filter_eq)
  with old show ?case
    by (cases "map_of names p") simp_all
qed

lemma register_loop_error:
  "register_loop gs p u reg ws = (Some e, reg', ws') \<Longrightarrow> e = KeyError"
  by (induction gs arbitrary: reg ws) (auto split: option.splits)

lemma register_loop_no_error:
  "\<forall>g \<in> set gs. map_of reg g \<noteq> None \<Longrightarrow> fst (register_loop gs p u reg ws) = None"
proof (induction gs arbitrary: reg ws)
  case Nil
  then show ?case by simp
next
  case (Cons g0 gs)
  from Cons.prems obtain names where names: "map_of reg g0 = Some names"
    by auto
  have keep: "\<forall>g \<in> set gs. map_of (AList.update g0 v reg) g \<noteq> None" for v
    using Cons.prems by (simp add: update_conv')
  show ?case
    using names Cons.IH [OF keep]
    by (simp split: option.splits)
qed

lemma fill_loop_distinct:
  "distinct (map fst acc) \<Longrightarrow> fill_loop chosen cache acc = Inr full \<Longrightarrow> distinct (map fst full)"
proof (induction chosen cache acc rule: fill_loop.induct)
  case (1 cache acc)
  then show ?case by simp
next
  case (2 g v rest cache acc)
  from "2.prems"(2) obtain sha meta where hit: "map_of cache v = Some (sha, meta)"
    by (auto split: option.splits)
  from "2.prems"(1)
  have "distinct (map fst (AList.update g
          \<lparr>sel_version = str_int v, sel_sha256 = sha, sel_metadata = meta\<rparr> acc))"
    by (rule distinct_update)
  with "2.IH" [OF hit refl] "2.prems"(2) hit show ?case
    by simp
qed

lemma generate_extension_versions_distinct:
  "generate_extension_versions w st m u = (Inr svm, st') \<Longrightarrow> distinct (map fst svm)"
  by (auto simp: generate_extension_versions_def Let_def
      split: prod.splits sum.splits dest: fill_loop_distinct [rotated])

lemma fetch_extension_data_any_registry:
  "fetch_extension_data w (st\<lparr>package_name_registry := reg\<rparr>) u v =
     (fst (fetch_extension_data w st u v),
      (snd (fetch_extension_data w st u v))\<lparr>package_name_registry := reg\<rparr>)"
  by (simp add: fetch_extension_data_def Let_def split: prod.splits option.splits)

lemma download_loop_any_registry:
  "download_loop w u vs c (st\<lparr>package_name_registry := reg\<rparr>) =
     (fst (download_loop w u vs c st),
      (snd (download_loop w u vs c st))\<lparr>package_name_registry := reg\<rparr>)"
proof (induction vs arbitrary: c st)
  case Nil
  then show ?case by simp
next
  case (Cons v vs)
  obtain r st1 where f: "fetch_extension_data w st u (str_int v) = (r, st1)"
    by (cases "fetch_extension_data w st u (str_int v)")
  then have f': "fetch_extension_data w (st\<lparr>package_name_registry := reg\<rparr>) u (str_int v) =
      (r, st1\<lparr>package_name_registry := reg\<rparr>)"
    by (simp add: fetch_extension_data_any_registry)
  show ?case
  proof (cases r)
    case (Inl e)
    with f f' show ?thesis by simp
  next
    case (Inr info)
    with f f' Cons.IH [of "AList.update v info c" st1] show ?thesis by simp
  qed
qed

lemma generate_extension_versions_any_registry:
  "fst (generate_extension_versions w (st\<lparr>package_name_registry := reg\<rparr>) m u) =
     fst (generate_extension_versions w st m u)"
proof -
  let ?d = "download_loop w u (sort (remdups (map snd (extension_versions m)))) [] st"
  show ?thesis
    by (cases ?d)
      (auto simp: generate_extension_versions_def Let_def download_loop_any_registry
        split: sum.splits)
qed

text \<open>
  C9, as amended. When \<^verbatim>\<open>process_extension\<close> turns a record into an output record,
  every entry of the registry is as before except the entries (group, short name) for
  the groups of the record's version selection: each of those is the old list (the empty
  list when the entry was absent) with the record's identifier appended once. The
  registry is read while this happens: a collision warning is logged for exactly those
  selected groups, in order, under which the short name was already listed. The record
  produced does not depend on what the registry holds: from any other registry the call
  yields the same record or a KeyError, and the same record whenever that registry has a
  dict for every selected group.
\<close>

theorem process_extension_registers_once:
  assumes "process_extension w st x = (Inr (Some out), st')"
  shows "registry_entry (package_name_registry st') g p =
           (if g \<in> fst ` set (ext_shell_version_map out) \<and> p = ext_pname out
            then Some ((case registry_entry (package_name_registry st) g p of
                          None \<Rightarrow> [] | Some uuids \<Rightarrow> uuids) @ [raw_uuid x])
            else registry_entry (package_name_registry st) g p)
         \<and> warning_log st' =
             warning_log st
             @ map (\<lambda>g. (ext_pname out, g))
                 (filter (\<lambda>g. registry_entry (package_name_registry st) g (ext_pname out) \<noteq> None)
                    (map fst (ext_shell_version_map out)))
         \<and> (fst (process_extension w (st\<lparr>package_name_registry := reg\<rparr>) x) = Inr (Some out)
            \<or> fst (process_extension w (st\<lparr>package_name_registry := reg\<rparr>) x) = Inl KeyError)
         \<and> ((\<forall>g \<in> fst ` set (ext_shell_version_map out). map_of reg g \<noteq> None)
            \<longrightarrow> fst (process_extension w (st\<lparr>package_name_registry := reg\<rparr>) x)
                  = Inr (Some out))"
proof -
  let ?g = "generate_extension_versions w st (raw_shell_version_map x) (raw_uuid x)"
  from assms have nonempty: "raw_shell_version_map x \<noteq> []"
    by (auto simp: process_extension_def split: if_splits)
  obtain r st1 where gen: "?g = (r, st1)" by (cases ?g)
  from assms nonempty gen obtain svm where r: "r = Inr svm" and svm: "svm \<noteq> []"
    by (cases r) (auto simp: process_extension_def split: if_splits)
  from assms nonempty gen r svm obtain pname pname_id
    where pn: "pname_from_url (raw_link x) = Inr (pname, pname_id)"
    by (cases "pname_from_url (raw_link x)") (auto simp: process_extension_def)
  obtain err reg1 ws1 where
    loop: "register_loop (map fst svm) pname (raw_uuid x) (package_name_registry st1)
             (warning_log st1) = (err, reg1, ws1)"
    by (cases "register_loop (map fst svm) pname (raw_uuid x) (package_name_registry st1)
                 (warning_log st1)")
  from assms nonempty gen r svm pn loop have err: "err = None"
    by (cases err) (auto simp: process_extension_def)
  from assms nonempty gen r svm pn loop err
  have out: "ext_shell_version_map out = svm" "ext_pname out = pname"
    and st': "package_name_registry st' = reg1" "warning_log st' = ws1"
    by (auto simp: process_extension_def)
  have reg_st1: "package_name_registry st1 = package_name_registry st"
    using generate_extension_versions_registry [of w st "raw_shell_version_map x" "raw_uuid x"] gen
    by simp
  have ws_st1: "warning_log st1 = warning_log st"
    using generate_extension_versions_warning_log [of w st "raw_shell_version_map x" "raw_uuid x"]
      gen
    by simp
  have d: "distinct (map fst svm)"
    using gen r by (auto dest: generate_extension_versions_distinct)
  have entries: "registry_entry (package_name_registry st') g p =
           (if g \<in> fst ` set (ext_shell_version_map out) \<and> p = ext_pname out
            then Some ((case registry_entry (package_name_registry st) g p of
                          None \<Rightarrow> [] | Some uuids \<Rightarrow> uuids) @ [raw_uuid x])
            else registry_entry (package_name_registry st) g p)"
    using register_loop_entries [OF d, of pname "raw_uuid x" "package_name_registry st1"
        "warning_log st1" reg1 ws1 g p]
      loop err out st' reg_st1
    by simp
  have warnings: "warning_log st' =
             warning_log st
             @ map (\<lambda>g. (ext_pname out, g))
                 (filter (\<lambda>g. registry_entry (package_name_registry st) g (ext_pname out) \<noteq> None)
                    (map fst (ext_shell_version_map out)))"
    using register_loop_warnings [OF d, of pname "raw_uuid x" "package_name_registry st1"
        "warning_log st1" reg1 ws1]
      loop err out st' reg_st1 ws_st1
    by simp
  let ?st2 = "st\<lparr>package_name_registry := reg\<rparr>"
  have gen2: "fst (generate_extension_versions w ?st2 (raw_shell_version_map x) (raw_uuid x))
                = Inr svm"
    using gen r by (simp add: generate_extension_versions_any_registry)
  obtain st2 where gen2': "generate_extension_versions w ?st2 (raw_shell_version_map x)
      (raw_uuid x) = (Inr svm, st2)"
    using gen2
    by (cases "generate_extension_versions w ?st2 (raw_shell_version_map x) (raw_uuid x)") simp
  have reg_st2: "package_name_registry st2 = reg"
    using generate_extension_versions_registry [of w ?st2 "raw_shell_version_map x" "raw_uuid x"]
      gen2'
    by simp
  obtain err2 reg2 ws2 where
    loop2: "register_loop (map fst svm) pname (raw_uuid x) (package_name_registry st2)
              (warning_log st2) = (err2, reg2, ws2)"
    by (cases "register_loop (map fst svm) pname (raw_uuid x) (package_name_registry st2)
                 (warning_log st2)")
  from assms nonempty gen r svm pn loop err
  have out_eq: "out = \<lparr>ext_uuid = raw_uuid x, ext_name = raw_name x, ext_pname = pname,
                  ext_description = raw_description x,
                  ext_link = ''https://extensions.gnome.org'' @ raw_link x,
                  ext_shell_version_map = svm\<rparr>"
    by (auto simp: process_extension_def)
  have same: "fst (process_extension w ?st2 x) = Inr (Some out)" if "err2 = None"
    using that out_eq nonempty gen2' svm pn loop2
    by (simp add: process_extension_def)
  have other: "fst (process_extension w ?st2 x) = Inr (Some out)
            \<or> fst (process_extension w ?st2 x) = Inl KeyError"
  proof (cases err2)
    case None
    with same show ?thesis by simp
  next
    case (Some e)
    with loop2 have "e = KeyError" by (auto dest: register_loop_error)
    with Some nonempty gen2' svm pn loop2 show ?thesis
      by (simp add: process_extension_def)
  qed
  have present: "fst (process_extension w ?st2 x) = Inr (Some out)"
    if groups: "\<forall>g \<in> fst ` set (ext_shell_version_map out). map_of reg g \<noteq> None"
  proof -
    from groups out reg_st2
    have "\<forall>g \<in> set (map fst svm). map_of (package_name_registry st2) g \<noteq> None"
      by simp
    from register_loop_no_error [OF this, of pname "raw_uuid x" "warning_log st2"] loop2
    have "err2 = None" by simp
    then show ?thesis by (rule same)
  qed
  from entries warnings other present show ?thesis by blast
qed

theorem process_extension_registers_once_witness:
  "process_extension example_world (initial_state\<lparr>package_name_registry := registry_after_one\<rparr>)
     example_extension =
     (Inr (Some example_processed),
      \<lparr>package_name_registry = registry_after_two,
         prefetch_log = [extension_url ''a@b'' ''3''], fetch_log = [(''a@b'', ''3'')],
         warning_log = [(''foo'', ''44''), (''foo'', ''45'')]\<rparr>)
   \<and> registry_entry registry_after_two ''44'' ''foo'' = Some [''a@b'', ''a@b'']
   \<and> registry_entry registry_after_two ''46'' ''foo'' = None
   \<and> fst (process_extension example_world
            (initial_state\<lparr>package_name_registry := initial_registry\<rparr>) example_extension)
       = Inr (Some example_processed)"
proof -
  let ?st = "initial_state\<lparr>package_name_registry := registry_after_one\<rparr>"
  have run: "process_extension example_world ?st example_extension =
     (Inr (Some example_processed),
      \<lparr>package_name_registry = registry_after_two,
         prefetch_log = [extension_url ''a@b'' ''3''], fetch_log = [(''a@b'', ''3'')],
         warning_log = [(''foo'', ''44''), (''foo'', ''45'')]\<rparr>)"
    using example_process_second [of "[]" "[]" "[]"] by (simp add: initial_state_def)
  have before: "registry_entry registry_after_one ''44'' ''foo'' = Some [''a@b'']"
    "registry_entry registry_after_one ''46'' ''foo'' = None"
    by (simp_all add: registry_entry_def registry_after_one_def)
  have groups: "fst ` set (ext_shell_version_map example_processed) = {''44'', ''45''}"
    by (simp add: example_processed_def)
  have pname: "ext_pname example_processed = ''foo''"
    by (simp add: example_processed_def)
  have all_groups: "\<forall>g \<in> fst ` set (ext_shell_version_map example_processed).
                      map_of initial_registry g \<noteq> None"
    by (simp add: groups initial_registry_def supported_versions_def)
  note inst = process_extension_registers_once [OF run]
  from inst [of "''44''" "''foo''" initial_registry]
  have e44: "registry_entry registry_after_two ''44'' ''foo'' = Some [''a@b'', ''a@b'']"
    by (simp add: before groups pname example_extension_def)
  from inst [of "''46''" "''foo''" initial_registry]
  have e46: "registry_entry registry_after_two ''46'' ''foo'' = None"
    by (simp add: before groups pname example_extension_def)
  from inst [of "''44''" "''foo''" initial_registry] all_groups
  have indep: "fst (process_extension example_world
                  (?st\<lparr>package_name_registry := initial_registry\<rparr>) example_extension)
               = Inr (Some example_processed)"
    by blast
  from run e44 e46 indep show ?thesis by simp
qed

text \<open>
  C9, the claim as stated, fails in its last part: the registry is read during the
  transformation, by the test \<^verbatim>\<open>pname in package_name_registry[shell_version]\<close>. The same
  record, in the same world, is processed without a warning from the initial registry
  and with two collision warnings from a registry that already lists its short name.
\<close>

theorem process_extension_reads_registry:
  "warning_log (snd (process_extension example_world initial_state example_extension)) = []
   \<and> warning_log (snd (process_extension example_world
                          (initial_state\<lparr>package_name_registry := registry_after_one\<rparr>)
                          example_extension))
       = [(''foo'', ''44''), (''foo'', ''45'')]"
  using example_process_first [of "[]" "[]" "[]"] example_process_second [of "[]" "[]" "[]"]
  by (simp add: initial_state_def)

subsection \<open>Retries of \<^verbatim>\<open>request\<close>\<close>

lemma request_loop_skips:
  "k \<le> retries \<Longrightarrow> k < n \<Longrightarrow> a \<le> k \<Longrightarrow>
   \<forall>j. a \<le> j \<and> j < k \<longrightarrow> (\<exists>c. open_url j = HTTPFailure c \<and> c \<in> set codes) \<Longrightarrow>
   request_loop open_url retries codes [a..<n] calls =
   request_loop open_url retries codes [k..<n] (calls + (k - a))"
proof (induction "k - a" arbitrary: a calls)
  case 0
  then show ?case by simp
next
  case (Suc d)
  from Suc.hyps(2) Suc.prems have lt: "a < k" and le: "Suc a \<le> k" and d: "d = k - Suc a"
    by simp_all
  from Suc.prems lt obtain c where c: "open_url a = HTTPFailure c" "c \<in> set codes"
    by blast
  from lt Suc.prems(1) have a_lt: "a < retries" by simp
  from lt Suc.prems(2) have unfold: "[a..<n] = a # [Suc a..<n]"
    by (simp add: upt_conv_Cons)
  have rest: "\<forall>j. Suc a \<le> j \<and> j < k \<longrightarrow> (\<exists>c. open_url j = HTTPFailure c \<and> c \<in> set codes)"
    using Suc.prems(4) by auto
  have "request_loop open_url retries codes [a..<n] calls =
          request_loop open_url retries codes (a # [Suc a..<n]) calls"
    by (simp only: unfold)
  also have "\<dots> = request_loop open_url retries codes [Suc a..<n] (calls + 1)"
    using c a_lt by simp
  also have "\<dots> = request_loop open_url retries codes [k..<n] (calls + 1 + (k - Suc a))"
    by (rule Suc.hyps(1) [OF d Suc.prems(1) Suc.prems(2) le rest])
  also from lt have "calls + 1 + (k - Suc a) = calls + (k - a)"
    by simp
  finally show ?case .
qed

lemma request_at_first_final_attempt:
  assumes "k \<le> retries"
    and "\<forall>j<k. \<exists>c. open_url j = HTTPFailure c \<and> c \<in> set codes"
  shows "request open_url retries codes =
           (case open_url k of
              Response response \<Rightarrow> (Inr response, Suc k)
            | HTTPFailure c \<Rightarrow>
                if c \<in> set codes \<and> k < retries
                then request_loop open_url retries codes [Suc k..<retries + 1] (Suc k)
                else (Inl (HTTPError c), Suc k))"
proof -
  from assms(2)
  have fails: "\<forall>j. 0 \<le> j \<and> j < k \<longrightarrow> (\<exists>c. open_url j = HTTPFailure c \<and> c \<in> set codes)"
    by simp
  from assms(1) have lt: "k < retries + 1" by simp
  have "request open_url retries codes =
          request_loop open_url retries codes [0..<retries + 1] 0"
    by (simp only: request_def)
  also have "\<dots> = request_loop open_url retries codes [k..<retries + 1] (0 + (k - 0))"
    by (rule request_loop_skips [OF assms(1) lt _ fails]) simp
  also from lt have "[k..<retries + 1] = k # [Suc k..<retries + 1]"
    by (simp only: upt_conv_Cons)
  finally show ?thesis
    by (simp split: http_result.splits del: upt_Suc)
qed

text \<open>
  C3, as amended. Let attempts \<open>0, \<dots>, k - 1\<close> of a page request all fail with a status
  among 500, 502, 503 and 504, where \<open>k \<le> 5\<close>. Then attempt \<open>k\<close> is made, for the same
  page, and it decides: a response is handed to the caller; a failure with any other
  status (404, but 403 as well) is raised at once, without a retry; and a failure with
  one of the four statuses is raised when \<open>k = 5\<close>, that is after 5 retries. In each case
  \<^verbatim>\<open>urlopen\<close> has been called \<open>k + 1\<close> times, at most 6.
\<close>

theorem request_retries_only_retry_codes:
  assumes "k \<le> 5"
    and "\<forall>j<k. \<exists>c. open_url j = HTTPFailure c \<and> c \<in> {500, 502, 503, 504}"
  shows "(open_url k = Response response
            \<longrightarrow> request open_url default_retries default_retry_codes = (Inr response, k + 1))
       \<and> (open_url k = HTTPFailure c \<and> (c \<notin> {500, 502, 503, 504} \<or> k = 5)
            \<longrightarrow> request open_url default_retries default_retry_codes
                  = (Inl (HTTPError c), k + 1))"
proof -
  from assms(2)
  have fails: "\<forall>j<k. \<exists>c. open_url j = HTTPFailure c \<and> c \<in> set default_retry_codes"
    by (simp add: default_retry_codes_def)
  from assms(1) have k: "k \<le> default_retries"
    by (simp add: default_retries_def)
  note r = request_at_first_final_attempt [OF k fails]
  have codes: "c \<in> set default_retry_codes \<longleftrightarrow> c \<in> {500, 502, 503, 504}"
    by (simp add: default_retry_codes_def)
  show ?thesis
    using r codes by (auto simp: default_retries_def)
qed

theorem request_retries_only_retry_codes_witness:
  "request flaky_server default_retries default_retry_codes = (Inr [example_extension], 3)
   \<and> request (\<lambda>attempt. HTTPFailure 503) default_retries default_retry_codes
       = (Inl (HTTPError 503), 6)"
proof -
  have a: "(2::nat) \<le> 5" by simp
  have b: "\<forall>j<2. \<exists>c. flaky_server j = HTTPFailure c \<and> c \<in> {500, 502, 503, 504}"
    by (simp add: flaky_server_def)
  have c: "flaky_server 2 = Response [example_extension]"
    by (simp add: flaky_server_def)
  have first: "request flaky_server default_retries default_retry_codes
                 = (Inr [example_extension], 3)"
    using request_retries_only_retry_codes [OF a b, of "[example_extension]"] c by simp
  have d: "(5::nat) \<le> 5" by simp
  have e: "\<forall>j<5. \<exists>c. (\<lambda>attempt. HTTPFailure 503) j = HTTPFailure c \<and> c \<in> {500, 502, 503, 504}"
    by simp
  have second: "request (\<lambda>attempt. HTTPFailure 503) default_retries default_retry_codes
                  = (Inl (HTTPError 503), 6)"
    using request_retries_only_retry_codes [OF d e, of _ 503] by simp
  from first second show ?thesis by simp
qed

lemma request_first_attempt:
  "request open_url default_retries default_retry_codes =
     (case open_url 0 of
        Response response \<Rightarrow> (Inr response, 1)
      | HTTPFailure c \<Rightarrow>
          if c \<in> set default_retry_codes
          then request_loop open_url default_retries default_retry_codes
                 [1..<default_retries + 1] 1
          else (Inl (HTTPError c), 1))"
  using request_at_first_final_attempt [of 0 default_retries open_url default_retry_codes]
  by (simp add: default_retries_def split: http_result.splits del: upt_Suc)

text \<open>
  C3, the claim as stated, fails: 403 is an HTTP failure other than 404, and it is
  raised after a single call of \<^verbatim>\<open>urlopen\<close>, with no retry; the scrape ends with it.
\<close>

theorem forbidden_is_not_retried:
  "request (urlopen forbidden_world 1) default_retries default_retry_codes
     = (Inl (HTTPError 403), 1)
   \<and> scrape_extensions_index forbidden_world = Some (Inl (HTTPError 403))"
proof -
  have r: "request (urlopen forbidden_world 1) default_retries default_retry_codes
             = (Inl (HTTPError 403), 1)"
    by (subst request_first_attempt) (simp add: forbidden_world_def default_retry_codes_def)
  then have "page_result forbidden_world (0 + 1) = Inl (HTTPError 403)"
    by (simp add: page_result_def)
  then have "scrape_loop forbidden_world 0 [] = Some (Inl (HTTPError 403))"
    by (subst scrape_loop.simps) simp
  with r show ?thesis
    by (simp add: scrape_extensions_index_def)
qed

subsection \<open>Termination of the pagination\<close>

lemma scrape_loop_full_pages:
  "\<forall>p. page < p \<and> p \<le> page + d \<longrightarrow> full_page w p \<Longrightarrow>
   scrape_loop w page acc =
     scrape_loop w (page + d) (acc @ concat (map (page_items w) [page + 1..<page + d + 1]))"
proof (induction d arbitrary: page acc)
  case 0
  then show ?case by simp
next
  case (Suc d)
  from Suc.prems have "full_page w (page + 1)" by simp
  then obtain data where data: "page_result w (page + 1) = Inr data" "\<not> length data < 25"
    by (auto simp: full_page_def split: sum.splits)
  then have items: "page_items w (page + 1) = data"
    by (simp add: page_items_def)
  from Suc.prems have rest: "\<forall>p. page + 1 < p \<and> p \<le> page + 1 + d \<longrightarrow> full_page w p"
    by simp
  have "scrape_loop w page acc = scrape_loop w (page + 1) (acc @ data)"
    using data by (subst scrape_loop.simps) simp
  also have "\<dots> = scrape_loop w (page + 1 + d)
                    ((acc @ data) @ concat (map (page_items w) [page + 1 + 1..<page + 1 + d + 1]))"
    by (rule Suc.IH [OF rest])
  also have "(acc @ data) @ concat (map (page_items w) [page + 1 + 1..<page + 1 + d + 1])
               = acc @ concat (map (page_items w) [page + 1..<page + Suc d + 1])"
    using items by (simp add: upt_conv_Cons del: upt_Suc)
  finally show ?case by simp
qed

lemma scrape_loop_last_page:
  "\<not> full_page w (page + 1) \<Longrightarrow>
   scrape_loop w page acc =
     Some (case page_result w (page + 1) of
             Inr data \<Rightarrow> Inr (acc @ data)
           | Inl (HTTPError code) \<Rightarrow> if code = 404 then Inr acc else Inl (HTTPError code)
           | Inl e \<Rightarrow> Inl e)"
  by (subst scrape_loop.simps)
    (auto simp: full_page_def split: sum.splits py_error.splits)

text \<open>
  C5. Let page \<open>n\<close> be the first page that is not a full one: every page before it came
  back with at least 25 items. Then the scrape returns, and its result depends on no page
  beyond \<open>n\<close>. When page \<open>n\<close> came back with fewer than 25 items, the result is the items of
  pages 1 to \<open>n\<close>, that page included, in a stable sort by \<^verbatim>\<open>pk\<close>; when the request
  for page \<open>n\<close> failed with 404, it is the sorted items of pages 1 to \<open>n - 1\<close> alone; any
  other failure of the request is raised.
\<close>

theorem scrape_halts_at_first_short_page:
  assumes "1 \<le> n"
    and "\<forall>p. 1 \<le> p \<and> p < n \<longrightarrow> full_page w p"
    and "\<not> full_page w n"
  shows "scrape_extensions_index w =
           Some (case page_result w n of
                   Inr data \<Rightarrow>
                     Inr (sort_key raw_pk (concat (map (page_items w) [1..<n]) @ data))
                 | Inl (HTTPError code) \<Rightarrow>
                     if code = 404
                     then Inr (sort_key raw_pk (concat (map (page_items w) [1..<n])))
                     else Inl (HTTPError code)
                 | Inl e \<Rightarrow> Inl e)"
proof -
  from assms(1) obtain d where n: "n = d + 1"
    by (metis add.commute le_Suc_ex)
  from assms(2) n have full: "\<forall>p. 0 < p \<and> p \<le> 0 + d \<longrightarrow> full_page w p"
    by simp
  from assms(3) n have last: "\<not> full_page w (0 + d + 1)"
    by simp
  have "scrape_loop w 0 [] =
          scrape_loop w (0 + d) ([] @ concat (map (page_items w) [0 + 1..<0 + d + 1]))"
    by (rule scrape_loop_full_pages [OF full])
  also have "\<dots> =
     Some (case page_result w (0 + d + 1) of
             Inr data \<Rightarrow> Inr (([] @ concat (map (page_items w) [0 + 1..<0 + d + 1])) @ data)
           | Inl (HTTPError code) \<Rightarrow>
               if code = 404 then Inr ([] @ concat (map (page_items w) [0 + 1..<0 + d + 1]))
               else Inl (HTTPError code)
           | Inl e \<Rightarrow> Inl e)"
    by (rule scrape_loop_last_page [OF last])
  finally show ?thesis
    using n
    by (simp add: scrape_extensions_index_def split: sum.splits py_error.splits del: upt_Suc)
qed

lemma page_result_first_attempt:
  "urlopen w page 0 = Response data \<Longrightarrow> page_result w page = Inr data"
  "urlopen w page 0 = HTTPFailure 404 \<Longrightarrow> page_result w page = Inl (HTTPError 404)"
  unfolding page_result_def
  by (subst request_first_attempt, simp add: default_retry_codes_def)+

lemma sort_key_example:
  "sort_key raw_pk (full_page_items @ [example_extension]) = example_extension # full_page_items"
  by (simp add: full_page_items_def example_extension_def eval_nat_numeral)

lemma sort_key_full_page: "sort_key raw_pk full_page_items = full_page_items"
  by (simp add: full_page_items_def eval_nat_numeral)

theorem scrape_halts_at_first_short_page_witness:
  "scrape_extensions_index two_page_world = Some (Inr (example_extension # full_page_items))
   \<and> scrape_extensions_index one_page_world = Some (Inr full_page_items)"
proof -
  have len: "length full_page_items = 25"
    by (simp add: full_page_items_def)
  have p1: "page_result two_page_world 1 = Inr full_page_items"
    by (rule page_result_first_attempt) (simp add: two_page_world_def)
  have p2: "page_result two_page_world 2 = Inr [example_extension]"
    by (rule page_result_first_attempt) (simp add: two_page_world_def)
  have a: "(1::nat) \<le> 2" by simp
  have b: "\<forall>p. 1 \<le> p \<and> p < 2 \<longrightarrow> full_page two_page_world p"
  proof (intro allI impI)
    fix p :: nat assume "1 \<le> p \<and> p < 2"
    then have "p = 1" by simp
    with p1 len show "full_page two_page_world p" by (simp add: full_page_def)
  qed
  have c: "\<not> full_page two_page_world 2"
    using p2 by (simp add: full_page_def)
  have items: "concat (map (page_items two_page_world) [1..<2]) = full_page_items"
    using p1 by (simp add: page_items_def numeral_2_eq_2)
  have two: "scrape_extensions_index two_page_world
               = Some (Inr (example_extension # full_page_items))"
    using scrape_halts_at_first_short_page [OF a b c]
    by (simp only: items p2 sort_key_example sum.case)
  have q1: "page_result one_page_world 1 = Inr full_page_items"
    by (rule page_result_first_attempt) (simp add: one_page_world_def)
  have q2: "page_result one_page_world 2 = Inl (HTTPError 404)"
    by (rule page_result_first_attempt) (simp add: one_page_world_def)
  have b': "\<forall>p. 1 \<le> p \<and> p < 2 \<longrightarrow> full_page one_page_world p"
  proof (intro allI impI)
    fix p :: nat assume "1 \<le> p \<and> p < 2"
    then have "p = 1" by simp
    with q1 len show "full_page one_page_world p" by (simp add: full_page_def)
  qed
  have c': "\<not> full_page one_page_world 2"
    using q2 by (simp add: full_page_def)
  have items': "concat (map (page_items one_page_world) [1..<2]) = full_page_items"
    using q1 by (simp add: page_items_def numeral_2_eq_2)
  have one: "scrape_extensions_index one_page_world = Some (Inr full_page_items)"
    using scrape_halts_at_first_short_page [OF a b' c']
    by (simp only: items' q2 sort_key_full_page sum.case py_error.case if_True refl)
  from two one show ?thesis by simp
qed

subsection \<open>The collision report\<close>

lemma set_set_update: "set (set_update s uuids) = set s \<union> set uuids"
proof -
  have "set (fold (\<lambda>u acc. if u \<in> set acc then acc else acc @ [u]) uuids s) = set s \<union> set uuids"
    by (induction uuids arbitrary: s) auto
  then show ?thesis by (simp add: set_update_def)
qed

lemma distinct_set_update: "distinct s \<Longrightarrow> distinct (set_update s uuids)"
proof -
  have "distinct s \<Longrightarrow> distinct (fold (\<lambda>u acc. if u \<in> set acc then acc else acc @ [u]) uuids s)"
    by (induction uuids arbitrary: s) auto
  then show "distinct s \<Longrightarrow> distinct (set_update s uuids)" by (simp add: set_update_def)
qed

lemma merge_pkgs_keys: "distinct (map fst acc) \<Longrightarrow> distinct (map fst (merge_pkgs items acc))"
proof (induction items acc rule: merge_pkgs.induct)
  case (1 filtered)
  then show ?case by simp
next
  case (2 pname uuids rest filtered)
  show ?case
  proof (cases "map_of filtered pname")
    case None
    from "2.prems" have "distinct (map fst (AList.update pname (set_update [] uuids) filtered))"
      by (rule distinct_update)
    with "2.IH"(1) [OF None] None show ?thesis by simp
  next
    case (Some s)
    from "2.prems" have "distinct (map fst (AList.update pname (set_update s uuids) filtered))"
      by (rule distinct_update)
    with "2.IH"(2) [OF Some] Some show ?thesis by simp
  qed
qed

lemma list_all_update:
  "list_all P al \<Longrightarrow> P (k, v) \<Longrightarrow> list_all P (AList.update k v al)"
  by (induction al) auto

lemma merge_pkgs_values:
  "list_all (\<lambda>(k, v). distinct v) acc \<Longrightarrow>
   list_all (\<lambda>(k, v). distinct v) (merge_pkgs items acc)"
proof (induction items acc rule: merge_pkgs.induct)
  case (1 filtered)
  then show ?case by simp
next
  case (2 pname uuids rest filtered)
  show ?case
  proof (cases "map_of filtered pname")
    case None
    have "distinct (set_update [] uuids)"
      by (rule distinct_set_update) simp
    with "2.prems"
    have "list_all (\<lambda>(k, v). distinct v) (AList.update pname (set_update [] uuids) filtered)"
      by (intro list_all_update) simp_all
    with "2.IH"(1) [OF None] None show ?thesis by simp
  next
    case (Some s)
    then have "(pname, s) \<in> set filtered" by (rule map_of_SomeD)
    with "2.prems" have "distinct s" by (auto simp: list_all_iff)
    then have "distinct (set_update s uuids)"
      by (rule distinct_set_update)
    with "2.prems"
    have "list_all (\<lambda>(k, v). distinct v) (AList.update pname (set_update s uuids) filtered)"
      by (intro list_all_update) simp_all
    with "2.IH"(2) [OF Some] Some show ?thesis by simp
  qed
qed

lemma merge_pkgs_uuid_set:
  "uuid_set (merge_pkgs items acc) p =
     uuid_set acc p \<union> set (concat (map snd (filter (\<lambda>(q, uuids). q = p) items)))"
proof (induction items acc rule: merge_pkgs.induct)
  case (1 filtered)
  then show ?case by simp
next
  case (2 pname uuids rest filtered)
  show ?case
  proof (cases "map_of filtered pname")
    case None
    have "uuid_set (AList.update pname (set_update [] uuids) filtered) p =
            uuid_set filtered p \<union> (if pname = p then set uuids else {})"
      using None by (auto simp: uuid_set_def update_conv' set_set_update)
    with "2.IH"(1) [OF None] None show ?thesis by auto
  next
    case (Some s)
    have "uuid_set (AList.update pname (set_update s uuids) filtered) p =
            uuid_set filtered p \<union> (if pname = p then set uuids else {})"
      using Some by (auto simp: uuid_set_def update_conv' set_set_update)
    with "2.IH"(2) [OF Some] Some show ?thesis by auto
  qed
qed

lemma fold_merge_pkgs_keys:
  "distinct (map fst acc) \<Longrightarrow> distinct (map fst (fold merge_pkgs ds acc))"
  by (induction ds arbitrary: acc) (simp_all add: merge_pkgs_keys)

lemma fold_merge_pkgs_values:
  "list_all (\<lambda>(k, v). distinct v) acc \<Longrightarrow>
   list_all (\<lambda>(k, v). distinct v) (fold merge_pkgs ds acc)"
  by (induction ds arbitrary: acc) (simp_all add: merge_pkgs_values)

lemma fold_merge_pkgs_uuid_set:
  "uuid_set (fold merge_pkgs ds acc) p =
     uuid_set acc p
     \<union> set (concat (map (\<lambda>names. concat (map snd (filter (\<lambda>(q, uuids). q = p) names))) ds))"
  by (induction ds arbitrary: acc) (auto simp: merge_pkgs_uuid_set)

lemma map_of_filter_values:
  "distinct (map fst al) \<Longrightarrow>
   map_of (filter (\<lambda>(k, v). Q v) al) p =
     (case map_of al p of None \<Rightarrow> None | Some v \<Rightarrow> if Q v then Some v else None)"
proof (induction al)
  case Nil
  then show ?case by simp
next
  case (Cons a al)
  obtain k v where a: "a = (k, v)" by (cases a)
  from Cons.prems have d: "distinct (map fst al)" by simp
  note ih = Cons.IH [OF d]
  show ?case
  proof (cases "k = p")
    case True
    with Cons.prems a have "p \<notin> fst ` set al" by simp
    then have "map_of al p = None" by (simp add: map_of_eq_None_iff)
    with ih a True show ?thesis by simp
  next
    case False
    with ih a show ?thesis by simp
  qed
qed

lemma last_3_versions_eq: "last_3_versions = [''47'', ''46'', ''45'']"
  by (simp add: last_3_versions_def supported_versions_def float_label_def)

lemma collisions_lookup:
  "map_of (collisions reg) p =
     (case map_of (fold merge_pkgs (package_name_registry_for_versions reg) []) p of
        None \<Rightarrow> None
      | Some l \<Rightarrow> if length l > 1 then Some l else None)"
proof -
  have "distinct (map fst (fold merge_pkgs (package_name_registry_for_versions reg) []))"
    by (rule fold_merge_pkgs_keys) simp
  from map_of_filter_values [OF this, of "\<lambda>v. length v > 1" p] show ?thesis
    by (simp add: collisions_def package_name_registry_filtered_def)
qed

text \<open>
  C4. The report is built from the groups 47, 46 and 45, which are the three with the
  highest numeric labels, in descending order. It has at most one entry per short name;
  a short name has an entry exactly when at least two distinct identifiers are
  registered under it across those three groups; and the entry lists exactly those
  identifiers, each once.
\<close>

theorem collisions_report:
  "last_3_versions = [''47'', ''46'', ''45'']
   \<and> (\<forall>k \<in> set (map fst supported_versions) - set last_3_versions.
        \<forall>j \<in> set last_3_versions. float_label k < float_label j)
   \<and> distinct (map fst (collisions reg))
   \<and> (map_of (collisions reg) p = None
        \<longleftrightarrow> card (set (registered_uuids reg last_3_versions p)) < 2)
   \<and> (map_of (collisions reg) p = Some ids
        \<longrightarrow> distinct ids \<and> set ids = set (registered_uuids reg last_3_versions p))"
proof -
  let ?m = "fold merge_pkgs (package_name_registry_for_versions reg) []"
  have highest: "\<forall>k \<in> set (map fst supported_versions) - set last_3_versions.
        \<forall>j \<in> set last_3_versions. float_label k < float_label j"
    by (simp add: last_3_versions_eq supported_versions_def float_label_def insert_Diff_if)
  have keys: "distinct (map fst ?m)"
    by (rule fold_merge_pkgs_keys) simp
  then have keys': "distinct (map fst (collisions reg))"
    by (simp add: collisions_def package_name_registry_filtered_def distinct_map_filter)
  have "list_all (\<lambda>(k, v). distinct v) ?m"
    by (rule fold_merge_pkgs_values) simp
  then have dist: "\<And>l. map_of ?m p = Some l \<Longrightarrow> distinct l"
    by (auto simp: list_all_iff dest: map_of_SomeD)
  have empty: "uuid_set [] p = {}"
    by (simp add: uuid_set_def)
  have sets: "uuid_set ?m p = set (registered_uuids reg last_3_versions p)"
    unfolding fold_merge_pkgs_uuid_set empty registered_uuids_def
      package_name_registry_for_versions_def
    by simp
  have absent: "map_of (collisions reg) p = None
        \<longleftrightarrow> card (set (registered_uuids reg last_3_versions p)) < 2"
  proof (cases "map_of ?m p")
    case None
    with sets have "set (registered_uuids reg last_3_versions p) = {}"
      by (simp add: uuid_set_def)
    with None show ?thesis by (simp add: collisions_lookup)
  next
    case (Some l)
    with dist have "distinct l" by simp
    then have "card (set l) = length l" by (rule distinct_card)
    moreover from Some sets have "set (registered_uuids reg last_3_versions p) = set l"
      by (simp add: uuid_set_def)
    ultimately show ?thesis using Some by (auto simp: collisions_lookup)
  qed
  have present: "distinct ids \<and> set ids = set (registered_uuids reg last_3_versions p)"
    if found: "map_of (collisions reg) p = Some ids"
  proof -
    from found have m: "map_of ?m p = Some ids"
      by (auto simp: collisions_lookup split: option.splits if_splits)
    with dist have "distinct ids" by simp
    moreover from m sets have "set ids = set (registered_uuids reg last_3_versions p)"
      by (simp add: uuid_set_def)
    ultimately show ?thesis by simp
  qed
  from last_3_versions_eq highest keys' absent present show ?thesis by blast
qed

lemma example_collisions: "collisions example_registry = [(''foo'', [''a@b'', ''g@h''])]"
  by (simp add: collisions_def package_name_registry_filtered_def
      package_name_registry_for_versions_def last_3_versions_eq set_update_def
      example_registry_def)

lemma example_registered:
  "registered_uuids example_registry last_3_versions ''foo'' = [''a@b'', ''a@b'', ''g@h'']"
  "registered_uuids example_registry last_3_versions ''bar'' = [''x@y'', ''x@y'']"
  by (simp_all add: registered_uuids_def last_3_versions_eq example_registry_def)

theorem collisions_report_witness:
  "map_of (collisions example_registry) ''foo'' = Some [''a@b'', ''g@h'']
   \<and> set [''a@b'', ''g@h''] = set (registered_uuids example_registry last_3_versions ''foo'')
   \<and> card (set (registered_uuids example_registry last_3_versions ''bar'')) < 2
   \<and> map_of (collisions example_registry) ''bar'' = None"
proof -
  have foo: "map_of (collisions example_registry) ''foo'' = Some [''a@b'', ''g@h'']"
    by (simp add: example_collisions)
  have bar: "card (set (registered_uuids example_registry last_3_versions ''bar'')) < 2"
    by (simp add: example_registered)
  from collisions_report [of example_registry "''foo''" "[''a@b'', ''g@h'']"] foo
  have 1: "set [''a@b'', ''g@h''] = set (registered_uuids example_registry last_3_versions ''foo'')"
    by blast
  from collisions_report [of example_registry "''bar''"] bar
  have 2: "map_of (collisions example_registry) ''bar'' = None"
    by blast
  from foo 1 bar 2 show ?thesis by blast
qed

subsection \<open>The text of \<^verbatim>\<open>extensions.json\<close>\<close>

lemma replace_ne_skip:
  "c \<noteq> a \<Longrightarrow> replace_ne (a # as) new (c # cs) = c # replace_ne (a # as) new cs"
  by (simp add: startswith_def)

lemma replace_ne_hit:
  "replace_ne (a # as) new (a # cs) =
     (if take (length as) cs = as then new @ replace_ne (a # as) new (drop (length as) cs)
      else a # replace_ne (a # as) new cs)"
  by (simp add: startswith_def)

lemma dumps_braces_processed:
  \<open>dumps_extension braces_processed =
     ''{"uuid": "a@b", "name": "A", "pname": "foo", "description": "}}}", "link": "https://extensions.gnome.org/extension/1/foo/", "shell_version_map": {"47": {"version": "3", "sha256": "0abc", "metadata": "e30="}}}''\<close>
  by (simp add: dumps_extension_def braces_processed_def example_processed_def
      example_selected_def json_object_def json_string_def json_escape_char_def
      dumps_selected_version_def)

lemma format_braces_processed:
  \<open>format_extension braces_processed =
     ''{"uuid": "a@b", "name": "A", "pname": "foo", "description": "}'' @ [CHR 0x0A]
     @ ''  }}", "link": "https://extensions.gnome.org/extension/1/foo/", "shell_version_map": {'' @ [CHR 0x0A]
     @ ''    "47": {"version": "3", "sha256": "0abc", "metadata": "e30="}'' @ [CHR 0x0A]
     @ ''  }}''\<close>
  unfolding format_extension_def dumps_braces_processed supported_versions_def
  by (simp add: replace_def replace_ne_skip replace_ne_hit del: replace_ne.simps(2))

text \<open>
  C1. The record \<open>braces_processed\<close> has the description \<^verbatim>\<open>}}}\<close>. The last replacement
  of the serializer, meant for the closing braces of the record, also rewrites these
  three characters inside the string literal and puts a line feed there. The file
  written has an unescaped control character inside a string, which \<^verbatim>\<open>json.load\<close>
  rejects: the text is not valid JSON.
\<close>

theorem extensions_json_breaks_string:
  \<open>extensions_json [braces_processed] =
     ''[ {"uuid": "a@b", "name": "A", "pname": "foo", "description": "}'' @ [CHR 0x0A]
     @ ''  }}", "link": "https://extensions.gnome.org/extension/1/foo/", "shell_version_map": {'' @ [CHR 0x0A]
     @ ''    "47": {"version": "3", "sha256": "0abc", "metadata": "e30="}'' @ [CHR 0x0A]
     @ ''  }}'' @ [CHR 0x0A]
     @ '']'' @ [CHR 0x0A]
   \<and> raw_control_in_string False (extensions_json [braces_processed])\<close>
  by (simp add: extensions_json_def format_braces_processed)

text \<open>For comparison, the same record with a plain description is written correctly.\<close>

lemma dumps_plain_processed:
  \<open>dumps_extension plain_processed =
     ''{"uuid": "a@b", "name": "A", "pname": "foo", "description": "d", "link": "https://extensions.gnome.org/extension/1/foo/", "shell_version_map": {"47": {"version": "3", "sha256": "0abc", "metadata": "e30="}}}''\<close>
  by (simp add: dumps_extension_def plain_processed_def braces_processed_def
      example_selected_def json_object_def json_string_def json_escape_char_def
      dumps_selected_version_def)

lemma extensions_json_plain:
  \<open>extensions_json [plain_processed] =
     ''[ {"uuid": "a@b", "name": "A", "pname": "foo", "description": "d", "link": "https://extensions.gnome.org/extension/1/foo/", "shell_version_map": {'' @ [CHR 0x0A]
     @ ''    "47": {"version": "3", "sha256": "0abc", "metadata": "e30="}'' @ [CHR 0x0A]
     @ ''  }}'' @ [CHR 0x0A]
     @ '']'' @ [CHR 0x0A]
   \<and> \<not> raw_control_in_string False (extensions_json [plain_processed])\<close>
proof -
  have "format_extension plain_processed =
     replace (inject_line_breaks (map fst supported_versions) (dumps_extension plain_processed))
       ''}}}'' ([CHR ''}'', CHR 0x0A] @ ''  }}'')"
    by (simp only: format_extension_def)
  then show ?thesis
    unfolding extensions_json_def dumps_plain_processed supported_versions_def
    by (simp add: replace_def replace_ne_skip replace_ne_hit del: replace_ne.simps(2))
qed

text \<open>With no record at all, the opening bracket is never written.\<close>

lemma extensions_json_empty: "extensions_json [] = [CHR '']'', CHR 0x0A]"
  by (simp add: extensions_json_def)

end
